theory Spec2Isabelle
  imports Complex_Main "HOL-Library.Sublist"
begin

section \<open>Data model\<close>

text \<open>
  The dubbing pipeline of the repository, embedded function by function.
  JavaScript numbers are modelled as reals (no rounding, no NaN); the one place where
  the source can divide by zero is written out where it occurs. Strings are
  \<^typ>\<open>string\<close>. The field \<open>end\<close> of the source is written \<open>end'\<close> and
  \<open>text\<close> is written \<open>text'\<close>, since both words are reserved here.
\<close>

record TranscriptSegment =
  start :: real
  end' :: real
  text' :: string

text \<open>What a failing call raises, and what a call does: return, throw, or never return.\<close>

datatype error =
  ProbeError | ENOENT | TypeError | TranslationFailed | MixFailed | NoUsableSegments | SynthesisFailed

datatype 'a outcome = Returns 'a | Throws error | Diverges

text \<open>A position written in decimal, as a template string or a property key has it.\<close>

fun decimal :: "nat \<Rightarrow> string" where
  "decimal n =
     (if n < 10 then [''0123456789'' ! n]
      else decimal (n div 10) @ [''0123456789'' ! (n mod 10)])"

declare decimal.simps [simp del]

section \<open>Segment Merger (\<open>getYouTubeTranscript\<close>, the merge loop)\<close>

text \<open>
  The loop keeps \<open>currentSegment\<close> (\<open>None\<close> is the source's \<open>null\<close>) and the list
  \<open>mergedSegments\<close>; after the loop the current segment, if any, is pushed.
\<close>

fun mergeLoop ::
  "TranscriptSegment option \<Rightarrow> TranscriptSegment list \<Rightarrow> TranscriptSegment list
     \<Rightarrow> TranscriptSegment list" where
  "mergeLoop currentSegment mergedSegments [] =
     (case currentSegment of None \<Rightarrow> mergedSegments | Some c \<Rightarrow> mergedSegments @ [c])"
| "mergeLoop currentSegment mergedSegments (seg # segments) =
     (case currentSegment of
        None \<Rightarrow> mergeLoop (Some seg) mergedSegments segments
      | Some c \<Rightarrow>
          (let gap = start seg - end' c;
               combinedDuration = end' seg - start c
           in if gap < 0.3 \<and> combinedDuration < 10
              then mergeLoop (Some (c\<lparr>end' := end' seg, text' := text' c @ '' '' @ text' seg\<rparr>))
                     mergedSegments segments
              else mergeLoop (Some seg) (mergedSegments @ [c]) segments))"

definition mergeSegments :: "TranscriptSegment list \<Rightarrow> TranscriptSegment list" where
  "mergeSegments segments = mergeLoop None [] segments"

text \<open>The vocabulary of the merger's properties: units that do not overlap, the unit a
  group of consecutive fragments is merged into, and the merge condition inside a group
  and between two neighbouring groups.\<close>

fun non_overlapping :: "TranscriptSegment list \<Rightarrow> bool" where
  "non_overlapping (a # b # rest) = (end' a \<le> start b \<and> non_overlapping (b # rest))"
| "non_overlapping _ = True"

fun joinText :: "string list \<Rightarrow> string" where
  "joinText [] = []"
| "joinText [t] = t"
| "joinText (t # u # ts) = t @ '' '' @ joinText (u # ts)"

definition unit_of :: "TranscriptSegment list \<Rightarrow> TranscriptSegment" where
  "unit_of g = \<lparr>start = start (hd g), end' = end' (last g), text' = joinText (map text' g)\<rparr>"

fun linked :: "real \<Rightarrow> TranscriptSegment \<Rightarrow> TranscriptSegment list \<Rightarrow> bool" where
  "linked s0 p [] = True"
| "linked s0 p (q # qs) = (start q - end' p < 0.3 \<and> end' q - s0 < 10 \<and> linked s0 q qs)"

fun merged_group :: "TranscriptSegment list \<Rightarrow> bool" where
  "merged_group [] = False"
| "merged_group (p # qs) = linked (start p) p qs"

fun separated :: "TranscriptSegment list list \<Rightarrow> bool" where
  "separated (g # h # rest) =
     (\<not> (start (hd h) - end' (last g) < 0.3 \<and> end' (hd h) - start (hd g) < 10)
      \<and> separated (h # rest))"
| "separated _ = True"

section \<open>Translation Mapper (\<open>translateTranscript\<close>, after the model's answer is parsed)\<close>

text \<open>
  The answer is whatever \<open>JSON.parse\<close> gives for the bracketed part of the model's text:
  an array whose elements are read as objects with an \<open>index\<close> and a \<open>text\<close>. The
  \<open>index\<close> of an element is any JSON value: absent (\<open>undefined\<close>; also what an element
  that is a number, a string or a boolean gives), \<open>null\<close>, a boolean, a number, a
  string, or an array or object, which is known here by the string it converts to and is
  identical to no other value. An element that is \<open>null\<close> has no \<open>index\<close> to read. The
  \<open>text\<close> is taken to be a string.
\<close>

datatype json = JUndefined | JNull | JBool bool | JNum real | JStr string | JCompound string

datatype Translation = Translation json string | NullElement

text \<open>
  The conversions the guard and the array access apply to an index. The comparison
  \<open>originalIndex < segments.length\<close> converts it to a number (\<open>None\<close> is \<open>NaN\<close>, below
  nothing); how a string converts is the language's and is a parameter. \<open>Set.has\<close>
  compares by value, and an array or object by identity. \<open>segments[originalIndex]\<close> is
  an element only when the index, as a property key, is the decimal form of a position.
\<close>

definition toNumber :: "(string \<Rightarrow> real option) \<Rightarrow> json \<Rightarrow> real option" where
  "toNumber stringToNumber x =
     (case x of
        JUndefined \<Rightarrow> None
      | JNull \<Rightarrow> Some 0
      | JBool b \<Rightarrow> Some (if b then 1 else 0)
      | JNum r \<Rightarrow> Some r
      | JStr s \<Rightarrow> stringToNumber s
      | JCompound s \<Rightarrow> stringToNumber s)"

definition lessThanLength :: "(string \<Rightarrow> real option) \<Rightarrow> json \<Rightarrow> nat \<Rightarrow> bool" where
  "lessThanLength stringToNumber x n =
     (case toNumber stringToNumber x of None \<Rightarrow> False | Some v \<Rightarrow> v < real n)"

definition has :: "json set \<Rightarrow> json \<Rightarrow> bool" where
  "has usedIndices x = (case x of JCompound s \<Rightarrow> False | _ \<Rightarrow> x \<in> usedIndices)"

definition elementNamed :: "TranscriptSegment list \<Rightarrow> string \<Rightarrow> TranscriptSegment option" where
  "elementNamed segments key =
     map_option (\<lambda>k. segments ! k) (find (\<lambda>k. decimal k = key) [0 ..< length segments])"

definition elementAt :: "TranscriptSegment list \<Rightarrow> json \<Rightarrow> TranscriptSegment option" where
  "elementAt segments x =
     (case x of
        JNum r \<Rightarrow>
          if 0 \<le> r \<and> r = real_of_int \<lfloor>r\<rfloor> \<and> nat \<lfloor>r\<rfloor> < length segments
          then Some (segments ! nat \<lfloor>r\<rfloor>) else None
      | JStr s \<Rightarrow> elementNamed segments s
      | JCompound s \<Rightarrow> elementNamed segments s
      | _ \<Rightarrow> None)"

text \<open>
  The loop over \<open>translations\<close>. The guard has an upper bound only, so an index that
  passes it without being a position reads \<open>segments[originalIndex]\<close> as \<open>undefined\<close>,
  and the field access throws a TypeError (after the index was added to the set).
\<close>

fun mapLoop ::
  "(string \<Rightarrow> real option) \<Rightarrow> TranscriptSegment list \<Rightarrow> json set \<Rightarrow> TranscriptSegment list
     \<Rightarrow> Translation list \<Rightarrow> TranscriptSegment list outcome" where
  "mapLoop stringToNumber segments usedIndices result [] = Returns result"
| "mapLoop stringToNumber segments usedIndices result (NullElement # translations) =
     Throws TypeError"
| "mapLoop stringToNumber segments usedIndices result
       (Translation originalIndex tx # translations) =
     (if originalIndex \<noteq> JUndefined
         \<and> lessThanLength stringToNumber originalIndex (length segments)
         \<and> \<not> has usedIndices originalIndex
      then (case elementAt segments originalIndex of
              None \<Rightarrow> Throws TypeError
            | Some original \<Rightarrow>
                mapLoop stringToNumber segments (insert originalIndex usedIndices)
                  (result @ [\<lparr>start = start original, end' = end' original, text' = tx\<rparr>])
                  translations)
      else mapLoop stringToNumber segments usedIndices result translations)"

text \<open>The result is sorted by start (the sort is stable); the enclosing \<open>catch\<close> rethrows
  whatever was thrown as one translation failure.\<close>

definition translateTranscript ::
  "(string \<Rightarrow> real option) \<Rightarrow> TranscriptSegment list \<Rightarrow> Translation list
     \<Rightarrow> TranscriptSegment list outcome" where
  "translateTranscript stringToNumber segments translations =
     (case mapLoop stringToNumber segments {} [] translations of
        Returns result \<Rightarrow> Returns (sort_key start result)
      | Throws e \<Rightarrow> Throws TranslationFailed
      | Diverges \<Rightarrow> Diverges)"



fun answerFor :: "Translation list \<Rightarrow> nat \<Rightarrow> string option" where
  "answerFor [] k = None"
| "answerFor (NullElement # ts) k = answerFor ts k"
| "answerFor (Translation x tx # ts) k = (if x = JNum (real k) then Some tx else answerFor ts k)"


section \<open>Files, paths and the external audio tool\<close>

text \<open>
  The temp directory is a map from paths to files. A clip is known by an opaque content
  and by the duration a probe reports for it. The audio executable is outside the
  repository: its three uses are parameters, each answering \<open>None\<close> for a non-zero
  exit status and \<open>Some\<close> of the file it wrote otherwise. \<open>atempo\<close> is given the
  chain of tempo stages and the input clip; \<open>amix\<close> the input clips as found on disk, the
  delays of the filter script in milliseconds and the total duration; \<open>loudnorm\<close> the
  mixed track.
\<close>

type_synonym path = string

datatype diskfile = Audio (content: string) (duration: real) | FilterScript "int list" | Metadata

type_synonym filesystem = "path \<rightharpoonup> diskfile"

record tools =
  atempo :: "real list \<Rightarrow> diskfile \<Rightarrow> diskfile option"
  amix :: "diskfile option list \<Rightarrow> int list \<Rightarrow> real \<Rightarrow> diskfile option"
  loudnorm :: "diskfile \<Rightarrow> diskfile option"

text \<open>\<open>String.prototype.replace\<close> with a string pattern: the first occurrence only.\<close>

fun js_replace :: "string \<Rightarrow> string \<Rightarrow> string \<Rightarrow> string" where
  "js_replace pat rep [] = (if pat = [] then rep else [])"
| "js_replace pat rep (c # cs) =
     (if prefix pat (c # cs) then rep @ drop (length pat) (c # cs)
      else c # js_replace pat rep cs)"

text \<open>The probe: it rejects when the file is missing or is no audio, and resolves to the
  duration otherwise (\<open>duration || 0\<close> is the duration itself for a number).\<close>

definition getAudioDuration :: "filesystem \<Rightarrow> path \<Rightarrow> real outcome" where
  "getAudioDuration fs filePath =
     (case fs filePath of Some (Audio c d) \<Rightarrow> Returns d | _ \<Rightarrow> Throws ProbeError)"

definition copyFileSync :: "filesystem \<Rightarrow> path \<Rightarrow> path \<Rightarrow> filesystem outcome" where
  "copyFileSync fs src dest =
     (case fs src of None \<Rightarrow> Throws ENOENT | Some f \<Rightarrow> Returns (fs(dest \<mapsto> f)))"

definition unlinkSync :: "filesystem \<Rightarrow> path \<Rightarrow> filesystem outcome" where
  "unlinkSync fs p = (if p \<in> dom fs then Returns (fs(p := None)) else Throws ENOENT)"

text \<open>\<open>try { fs.unlinkSync(p); } catch {}\<close>\<close>

definition tryUnlink :: "filesystem \<Rightarrow> path \<Rightarrow> filesystem" where
  "tryUnlink fs p = (case unlinkSync fs p of Returns fs' \<Rightarrow> fs' | _ \<Rightarrow> fs)"

definition renameSync :: "filesystem \<Rightarrow> path \<Rightarrow> path \<Rightarrow> unit outcome \<times> filesystem" where
  "renameSync fs old new =
     (case fs old of
        None \<Rightarrow> (Throws ENOENT, fs)
      | Some f \<Rightarrow> (Returns (), (fs(old := None))(new \<mapsto> f)))"

section \<open>Speed adjustment (\<open>adjustAudioSpeed\<close>)\<close>

text \<open>\<open>toFixed(4)\<close>: the nearest multiple of 1/10000, the larger one at a tie.\<close>

definition toFixed4 :: "real \<Rightarrow> real" where
  "toFixed4 x = real_of_int (round (x * 10000)) / 10000"

text \<open>The chain of tempo stages: stages of 2.0 while the remaining factor exceeds 2.0,
  then one stage for what remains when it exceeds 1.0.\<close>

function atempoFilters :: "real \<Rightarrow> real list" where
  "atempoFilters remainingFactor =
     (if remainingFactor > 2 then 2 # atempoFilters (remainingFactor / 2)
      else if remainingFactor > 1 then [toFixed4 remainingFactor]
      else [])"
  by pat_completeness auto
termination
proof (relation "measure (\<lambda>r. nat \<lceil>r\<rceil>)")
  show "wf (measure (\<lambda>r. nat \<lceil>r\<rceil>))" by simp
next
  fix remainingFactor :: real
  assume "2 < remainingFactor"
  then have "remainingFactor / 2 \<le> remainingFactor - 1" by simp
  then have "\<lceil>remainingFactor / 2\<rceil> \<le> \<lceil>remainingFactor - 1\<rceil>" by (rule ceiling_mono)
  moreover have "\<lceil>remainingFactor - 1\<rceil> = \<lceil>remainingFactor\<rceil> - 1" by simp
  moreover have "0 < \<lceil>remainingFactor\<rceil>" using \<open>2 < remainingFactor\<close> by simp
  ultimately show "(remainingFactor / 2, remainingFactor) \<in> measure (\<lambda>r. nat \<lceil>r\<rceil>)"
    by simp
qed

declare atempoFilters.simps [simp del]

text \<open>
  With a target of zero and a longer clip the source's \<open>speedFactor\<close> is \<open>Infinity\<close>,
  which halving never brings under 2.0: the loop does not end. The tool reads the input
  file; when it exits non-zero the original is copied to the output path.
\<close>

definition adjustAudioSpeed ::
  "tools \<Rightarrow> filesystem \<Rightarrow> path \<Rightarrow> path \<Rightarrow> real \<Rightarrow> filesystem outcome" where
  "adjustAudioSpeed ext fs inputPath outputPath targetDuration =
     (case getAudioDuration fs inputPath of
        Throws e \<Rightarrow> Throws e
      | Diverges \<Rightarrow> Diverges
      | Returns actualDuration \<Rightarrow>
          if actualDuration \<le> targetDuration then copyFileSync fs inputPath outputPath
          else if targetDuration = 0 then Diverges
          else (let speedFactor = actualDuration / targetDuration;
                    filters = atempoFilters speedFactor
                in if filters = [] then copyFileSync fs inputPath outputPath
                   else (case (case fs inputPath of None \<Rightarrow> None | Some f \<Rightarrow> atempo ext filters f) of
                           Some out \<Rightarrow> Returns (fs(outputPath \<mapsto> out))
                         | None \<Rightarrow> copyFileSync fs inputPath outputPath)))"

section \<open>Timing Resolver (\<open>stitchAudioWithTiming\<close>, the loop over the sorted segments)\<close>

record AudioSegment = TranscriptSegment +
  audioPath :: path

record AdjustedSegment = AudioSegment +
  originalPath :: path
  wasAdjusted :: bool
  audioDuration :: real
  exactStart :: real

definition maxSpeedup :: real where
  "maxSpeedup = 3"

definition availableTime :: "AudioSegment list \<Rightarrow> nat \<Rightarrow> real" where
  "availableTime sortedSegments i =
     (let segment = sortedSegments ! i;
          targetDuration = end' segment - start segment
      in if int i < int (length sortedSegments) - 1
         then max (min targetDuration (start (sortedSegments ! (i + 1)) - start segment)) 0.5
         else targetDuration)"

definition adjustedPathOf :: "path \<Rightarrow> path" where
  "adjustedPathOf p = js_replace ''.mp3'' ''_adjusted.mp3'' p"

definition adjustedEntry :: "AudioSegment \<Rightarrow> path \<Rightarrow> real \<Rightarrow> AdjustedSegment" where
  "adjustedEntry segment adjustedPath finalDuration =
     \<lparr>start = start segment, end' = end' segment, text' = text' segment,
      audioPath = adjustedPath,
      originalPath = audioPath segment,
      wasAdjusted = (adjustedPath \<noteq> audioPath segment),
      audioDuration = finalDuration,
      exactStart = start segment\<rparr>"

text \<open>Both branches of the speed-up: adjust to the given target, then probe the file at
  the adjusted path.\<close>

definition speedUp ::
  "tools \<Rightarrow> filesystem \<Rightarrow> AudioSegment \<Rightarrow> real \<Rightarrow> AdjustedSegment option outcome \<times> filesystem" where
  "speedUp ext fs segment target =
     (let adjustedPath = adjustedPathOf (audioPath segment)
      in case adjustAudioSpeed ext fs (audioPath segment) adjustedPath target of
           Throws e \<Rightarrow> (Throws e, fs)
         | Diverges \<Rightarrow> (Diverges, fs)
         | Returns fs' \<Rightarrow>
             (case getAudioDuration fs' adjustedPath of
                Throws e \<Rightarrow> (Throws e, fs')
              | Diverges \<Rightarrow> (Diverges, fs')
              | Returns finalDuration \<Rightarrow>
                  (Returns (Some (adjustedEntry segment adjustedPath finalDuration)), fs')))"

text \<open>
  One pass of the loop body: \<open>Returns None\<close> is the \<open>continue\<close> of a missing file. Where
  \<open>availableTime\<close> is zero the source's \<open>speedFactor\<close> is \<open>Infinity\<close>, above every ceiling.
\<close>

definition resolveSegment ::
  "tools \<Rightarrow> filesystem \<Rightarrow> AudioSegment list \<Rightarrow> nat \<Rightarrow> AdjustedSegment option outcome \<times> filesystem" where
  "resolveSegment ext fs sortedSegments i =
     (let segment = sortedSegments ! i
      in if audioPath segment \<notin> dom fs then (Returns None, fs)
         else (case getAudioDuration fs (audioPath segment) of
                 Throws e \<Rightarrow> (Throws e, fs)
               | Diverges \<Rightarrow> (Diverges, fs)
               | Returns ttsDuration \<Rightarrow>
                   (let avail = availableTime sortedSegments i
                    in if ttsDuration > avail
                       then (if avail \<noteq> 0 \<and> ttsDuration / avail \<le> maxSpeedup
                             then speedUp ext fs segment avail
                             else speedUp ext fs segment (ttsDuration / maxSpeedup))
                       else (Returns (Some (adjustedEntry segment (audioPath segment) ttsDuration)), fs))))"

function resolveLoop ::
  "tools \<Rightarrow> AudioSegment list \<Rightarrow> nat \<Rightarrow> filesystem \<Rightarrow> AdjustedSegment list
     \<Rightarrow> AdjustedSegment list outcome \<times> filesystem" where
  "resolveLoop ext sortedSegments i fs adjustedSegments =
     (if i < length sortedSegments
      then (case resolveSegment ext fs sortedSegments i of
              (Returns None, fs') \<Rightarrow> resolveLoop ext sortedSegments (i + 1) fs' adjustedSegments
            | (Returns (Some entry), fs') \<Rightarrow>
                resolveLoop ext sortedSegments (i + 1) fs' (adjustedSegments @ [entry])
            | (Throws e, fs') \<Rightarrow> (Throws e, fs')
            | (Diverges, fs') \<Rightarrow> (Diverges, fs'))
      else (Returns adjustedSegments, fs))"
  by pat_completeness auto
termination
  by (relation "measure (\<lambda>(ext, sortedSegments, i, fs, adjustedSegments). length sortedSegments - i)") auto

declare resolveLoop.simps [simp del]

section \<open>Compositor (\<open>stitchAudioWithTiming\<close>, after the loop; \<open>normalizeAudio\<close>)\<close>

definition filterScriptPathOf :: "path \<Rightarrow> path" where
  "filterScriptPathOf outputPath = js_replace ''.mp3'' ''_filter.txt'' outputPath"

definition tempNormPathOf :: "path \<Rightarrow> path" where
  "tempNormPathOf audioPath' = js_replace ''.mp3'' ''_temp_norm.mp3'' audioPath'"

definition delayMs :: "AdjustedSegment \<Rightarrow> int" where
  "delayMs segment = \<lfloor>exactStart segment * 1000\<rfloor>"

text \<open>The cleanup loop, written twice in the source (after a successful mix and in the
  \<open>catch\<close>): only entries flagged \<open>wasAdjusted\<close> have their file removed.\<close>

fun unlinkAdjusted :: "filesystem \<Rightarrow> AdjustedSegment list \<Rightarrow> filesystem" where
  "unlinkAdjusted fs [] = fs"
| "unlinkAdjusted fs (segment # rest) =
     unlinkAdjusted (if wasAdjusted segment then tryUnlink fs (audioPath segment) else fs) rest"

definition normalizeAudio :: "tools \<Rightarrow> filesystem \<Rightarrow> path \<Rightarrow> unit outcome \<times> filesystem" where
  "normalizeAudio ext fs audioPath' =
     (let tempPath = tempNormPathOf audioPath'
      in case (case fs audioPath' of None \<Rightarrow> None | Some f \<Rightarrow> loudnorm ext f) of
           None \<Rightarrow> (Returns (), fs)
         | Some normalized \<Rightarrow>
             (let fs1 = fs(tempPath \<mapsto> normalized)
              in case unlinkSync fs1 audioPath' of
                   Throws e \<Rightarrow> (Throws e, fs1)
                 | Diverges \<Rightarrow> (Diverges, fs1)
                 | Returns fs2 \<Rightarrow> renameSync fs2 tempPath audioPath'))"

text \<open>The \<open>catch\<close> of the mix stage: remove the filter script and the adjusted files,
  then rethrow.\<close>

definition catchCleanup ::
  "filesystem \<Rightarrow> path \<Rightarrow> AdjustedSegment list \<Rightarrow> error \<Rightarrow> unit outcome \<times> filesystem" where
  "catchCleanup fs filterScriptPath adjustedSegments e =
     (Throws e, unlinkAdjusted (tryUnlink fs filterScriptPath) adjustedSegments)"

definition compositeStage ::
  "tools \<Rightarrow> filesystem \<Rightarrow> AdjustedSegment list \<Rightarrow> path \<Rightarrow> real \<Rightarrow> unit outcome \<times> filesystem" where
  "compositeStage ext fs adjustedSegments outputPath totalDuration =
     (let filterScriptPath = filterScriptPathOf outputPath;
          fs1 = fs(filterScriptPath \<mapsto> FilterScript (map delayMs adjustedSegments))
      in case amix ext (map (\<lambda>segment. fs1 (audioPath segment)) adjustedSegments)
                (map delayMs adjustedSegments) totalDuration of
           None \<Rightarrow> catchCleanup fs1 filterScriptPath adjustedSegments MixFailed
         | Some mixed \<Rightarrow>
             (let fs2 = fs1(outputPath \<mapsto> mixed)
              in case unlinkSync fs2 filterScriptPath of
                   Throws e \<Rightarrow> catchCleanup fs2 filterScriptPath adjustedSegments e
                 | Diverges \<Rightarrow> (Diverges, fs2)
                 | Returns fs3 \<Rightarrow>
                     (case normalizeAudio ext (unlinkAdjusted fs3 adjustedSegments) outputPath of
                        (Returns u, fs4) \<Rightarrow> (Returns (), fs4)
                      | (Throws e, fs4) \<Rightarrow> catchCleanup fs4 filterScriptPath adjustedSegments e
                      | (Diverges, fs4) \<Rightarrow> (Diverges, fs4))))"

definition stitchAudioWithTiming ::
  "tools \<Rightarrow> filesystem \<Rightarrow> AudioSegment list \<Rightarrow> path \<Rightarrow> real \<Rightarrow> unit outcome \<times> filesystem" where
  "stitchAudioWithTiming ext fs segments outputPath totalDuration =
     (let sortedSegments = sort_key start segments
      in case resolveLoop ext sortedSegments 0 fs [] of
           (Returns adjustedSegments, fs') \<Rightarrow>
             compositeStage ext fs' adjustedSegments outputPath totalDuration
         | (Throws e, fs') \<Rightarrow> (Throws e, fs')
         | (Diverges, fs') \<Rightarrow> (Diverges, fs'))"

section \<open>Speech Synthesizer (\<open>generateSpeechEdge\<close>, \<open>generateGeorgianAudio\<close>)\<close>

text \<open>
  A call of \<open>generateSpeechEdge\<close> makes the scratch directory \<open>temp_<base>\<close> beside the
  clip's path unless it exists, has the provider write \<open>audio.mp3\<close> into it, copies that
  file to the clip's path, removes it and removes the scratch directory. The scratch
  directories are kept apart from the files of the temp directory, each under the path
  of its clip: \<open>None\<close> when there is none, \<open>Some None\<close> when it is empty, and \<open>Some (Some f)\<close>
  when it holds the generated file \<open>f\<close>. (A scratch directory's name has no extension, so
  it is never the name of a clip, of the DubTrack or of the metadata, and nothing but
  \<open>generateSpeechEdge\<close> looks at it.)

  How a call goes is decided outside the repository, by the provider and by the file
  operations of the move, which can throw (the retries on a busy file end in one of the
  same ways). It is a parameter, by segment position and attempt:
  \<^item> \<open>Written f\<close>: the provider generates \<open>f\<close>, the move succeeds, the call returns;
  \<^item> \<open>WrittenThenThrew f left\<close>: \<open>f\<close> is generated and copied to the clip's path, then the
    removal of the generated file throws (\<open>left\<close>: it is still there) or the removal of the
    scratch directory does;
  \<^item> \<open>GeneratedThenThrew f\<close>: \<open>f\<close> is generated, and the provider throws after that or
    the copy does;
  \<^item> \<open>ReturnedNothing\<close>: the provider returns without having written the file; the call
    throws, unless a file left in the scratch directory by an earlier call is found and
    moved;
  \<^item> \<open>Threw\<close>: the provider throws while generating;
  \<^item> \<open>SetupThrew\<close>: the provider cannot be set up, or the scratch directory cannot be
    made: the call throws before anything is on the disk.
  A copy that throws is taken to leave the clip's path as it was; one that throws with
  the clip already in place is the case \<open>WrittenThenThrew\<close>.
\<close>

type_synonym scratch = "path \<rightharpoonup> diskfile option"

datatype synthesis =
  Written diskfile | WrittenThenThrew diskfile bool | GeneratedThenThrew diskfile
  | ReturnedNothing | Threw | SetupThrew

definition generateSpeechEdge ::
  "synthesis \<Rightarrow> path \<Rightarrow> filesystem \<Rightarrow> scratch \<Rightarrow> unit outcome \<times> filesystem \<times> scratch" where
  "generateSpeechEdge provider outputPath fs sc =
     (let sc0 = (if outputPath \<in> dom sc then sc else sc(outputPath \<mapsto> None))
      in case provider of
           SetupThrew \<Rightarrow> (Throws SynthesisFailed, fs, sc)
         | Threw \<Rightarrow> (Throws SynthesisFailed, fs, sc0)
         | ReturnedNothing \<Rightarrow>
             (case sc0 outputPath of
                Some (Some stale) \<Rightarrow> (Returns (), fs(outputPath \<mapsto> stale), sc0(outputPath := None))
              | _ \<Rightarrow> (Throws SynthesisFailed, fs, sc0))
         | GeneratedThenThrew f \<Rightarrow> (Throws SynthesisFailed, fs, sc0(outputPath \<mapsto> Some f))
         | WrittenThenThrew f left \<Rightarrow>
             (Throws SynthesisFailed, fs(outputPath \<mapsto> f),
              sc0(outputPath \<mapsto> (if left then Some f else None)))
         | Written f \<Rightarrow> (Returns (), fs(outputPath \<mapsto> f), sc0(outputPath := None)))"

text \<open>\<open>trim\<close> over the ASCII white space, and the removal of every \<open>[...]\<close> annotation
  (the shortest bracketed run that holds no line break).\<close>

definition isWhiteSpace :: "char \<Rightarrow> bool" where
  "isWhiteSpace c = (c \<in> {CHR 0x09, CHR 0x0A, CHR 0x0B, CHR 0x0C, CHR 0x0D, CHR '' ''})"

definition trim :: "string \<Rightarrow> string" where
  "trim s = rev (dropWhile isWhiteSpace (rev (dropWhile isWhiteSpace s)))"

fun closeBracket :: "string \<Rightarrow> string option" where
  "closeBracket [] = None"
| "closeBracket (c # cs) =
     (if c = CHR '']'' then Some cs
      else if c = CHR 0x0A \<or> c = CHR 0x0D then None
      else closeBracket cs)"

function stripBrackets :: "string \<Rightarrow> string" where
  "stripBrackets [] = []"
| "stripBrackets (c # cs) =
     (if c = CHR ''[''
      then (case closeBracket cs of
              Some rest \<Rightarrow> stripBrackets rest
            | None \<Rightarrow> c # stripBrackets cs)
      else c # stripBrackets cs)"
  by pat_completeness auto
termination
proof (relation "measure length")
  have shorter: "closeBracket cs = Some rest \<Longrightarrow> length rest < Suc (length cs)" for cs rest
    by (induction cs) (auto split: if_splits)
  fix c :: char and cs rest
  assume "c = CHR ''[''" "closeBracket cs = Some rest"
  then show "(rest, c # cs) \<in> measure length" using shorter by simp
qed auto

text \<open>\<open>path.join\<close> of a directory and a file name: the two with a separator between
  (no normalisation of the directory part).\<close>

definition join :: "path \<Rightarrow> string \<Rightarrow> path" where
  "join dir name = dir @ ''/'' @ name"

definition segmentFileName :: "string \<Rightarrow> nat \<Rightarrow> string" where
  "segmentFileName videoId i = videoId @ ''_segment_'' @ decimal i @ ''.mp3''"

text \<open>The \<open>try\<close> with its single retry in the \<open>catch\<close>: whether the file name is pushed,
  and the temp directory afterwards.\<close>

definition synthesizeWithRetry ::
  "(nat \<Rightarrow> nat \<Rightarrow> string \<Rightarrow> synthesis) \<Rightarrow> nat \<Rightarrow> string \<Rightarrow> path \<Rightarrow> filesystem \<Rightarrow> scratch
     \<Rightarrow> bool \<times> filesystem \<times> scratch" where
  "synthesizeWithRetry synth i cleanText fileName fs sc =
     (case generateSpeechEdge (synth i 0 cleanText) fileName fs sc of
        (Returns u, fs1, sc1) \<Rightarrow> (True, fs1, sc1)
      | (failed, fs1, sc1) \<Rightarrow>
          (case generateSpeechEdge (synth i 1 cleanText) fileName fs1 sc1 of
             (Returns u, fs2, sc2) \<Rightarrow> (True, fs2, sc2)
           | (retryFailed, fs2, sc2) \<Rightarrow> (False, fs2, sc2)))"

function generateLoop ::
  "(nat \<Rightarrow> nat \<Rightarrow> string \<Rightarrow> synthesis) \<Rightarrow> TranscriptSegment list \<Rightarrow> path \<Rightarrow> string \<Rightarrow> nat
     \<Rightarrow> filesystem \<Rightarrow> scratch \<Rightarrow> path list \<Rightarrow> path list \<times> filesystem \<times> scratch" where
  "generateLoop synth segments outputDir videoId i fs sc segmentFiles =
     (if i < length segments
      then (let segment = segments ! i;
                cleanText = trim (stripBrackets (text' segment));
                fileName = join outputDir (segmentFileName videoId i)
            in if text' segment = [] \<or> trim (text' segment) = []
               then generateLoop synth segments outputDir videoId (i + 1) fs sc segmentFiles
               else if cleanText = []
               then generateLoop synth segments outputDir videoId (i + 1) fs sc segmentFiles
               else (case synthesizeWithRetry synth i cleanText fileName fs sc of
                       (pushed, fs', sc') \<Rightarrow>
                         generateLoop synth segments outputDir videoId (i + 1) fs' sc'
                           (if pushed then segmentFiles @ [fileName] else segmentFiles)))
      else (segmentFiles, fs, sc))"
  by pat_completeness auto
termination
  by (relation "measure (\<lambda>(synth, segments, outputDir, videoId, i, fs, sc, segmentFiles).
                           length segments - i)") auto

declare generateLoop.simps [simp del]

definition generateGeorgianAudio ::
  "(nat \<Rightarrow> nat \<Rightarrow> string \<Rightarrow> synthesis) \<Rightarrow> filesystem \<Rightarrow> scratch \<Rightarrow> TranscriptSegment list
     \<Rightarrow> path \<Rightarrow> string \<Rightarrow> path list \<times> filesystem \<times> scratch" where
  "generateGeorgianAudio synth fs sc segments outputDir videoId =
     generateLoop synth segments outputDir videoId 0 fs sc []"

section \<open>The run (\<open>POST\<close> of translate-stream, stages 3 and 4)\<close>

text \<open>The clips handed to the stitcher are found again by name: every position whose
  expected file exists in the temp directory.\<close>

definition segmentsWithPaths ::
  "filesystem \<Rightarrow> path \<Rightarrow> string \<Rightarrow> TranscriptSegment list \<Rightarrow> AudioSegment list" where
  "segmentsWithPaths fs outputDir videoId translationSegments =
     map (\<lambda>i. \<lparr>start = start (translationSegments ! i), end' = end' (translationSegments ! i),
                text' = text' (translationSegments ! i),
                audioPath = join outputDir (segmentFileName videoId i)\<rparr>)
       (filter (\<lambda>i. join outputDir (segmentFileName videoId i) \<in> dom fs)
          [0 ..< length translationSegments])"

definition finalAudioName :: "string \<Rightarrow> string" where
  "finalAudioName videoId = videoId @ ''_georgian.mp3''"

definition metadataFileName :: "string \<Rightarrow> string" where
  "metadataFileName videoId = videoId @ ''_meta.json''"

definition synthesizeAndStitch ::
  "tools \<Rightarrow> (nat \<Rightarrow> nat \<Rightarrow> string \<Rightarrow> synthesis) \<Rightarrow> filesystem \<Rightarrow> scratch \<Rightarrow> path \<Rightarrow> string
     \<Rightarrow> TranscriptSegment list \<Rightarrow> real \<Rightarrow> unit outcome \<times> filesystem \<times> scratch" where
  "synthesizeAndStitch ext synth fs sc outputDir videoId translationSegments duration' =
     (case generateGeorgianAudio synth fs sc translationSegments outputDir videoId of
        (segmentFiles, fs1, sc1) \<Rightarrow>
          (let withPaths = segmentsWithPaths fs1 outputDir videoId translationSegments
           in if length withPaths = 0 then (Throws NoUsableSegments, fs1, sc1)
              else (case stitchAudioWithTiming ext fs1 withPaths
                           (join outputDir (finalAudioName videoId)) duration' of
                      (Returns u, fs2) \<Rightarrow>
                        (Returns (),
                         fs2(join outputDir (metadataFileName videoId) \<mapsto> Metadata), sc1)
                    | (Throws e, fs2) \<Rightarrow> (Throws e, fs2, sc1)
                    | (Diverges, fs2) \<Rightarrow> (Diverges, fs2, sc1))))"

text \<open>A call that fails before its clip is copied to its place: the set-up throws, the
  provider throws, or the copy does.\<close>

definition leavesNoClip :: "synthesis \<Rightarrow> bool" where
  "leavesNoClip provider =
     (case provider of
        SetupThrew \<Rightarrow> True | Threw \<Rightarrow> True | GeneratedThenThrew f \<Rightarrow> True | _ \<Rightarrow> False)"

section \<open>History (\<open>DELETE\<close> of history/[videoId])\<close>

text \<open>The temp directory as its listing: each name with what it is.\<close>

datatype entry = RegularFile | Directory

type_synonym directory = "(string \<times> entry) list"

datatype response = BadRequest | Success string "string list"

definition removeEntry :: "string \<Rightarrow> directory \<Rightarrow> directory" where
  "removeEntry name dir = filter (\<lambda>(n, e). n \<noteq> name) dir"

text \<open>First loop: \<open>unlinkSync\<close> removes a regular file; on anything else it throws, which
  is caught and logged.\<close>

fun deleteFiles :: "string \<Rightarrow> string list \<Rightarrow> directory \<Rightarrow> string list \<Rightarrow> string list \<times> directory" where
  "deleteFiles videoId [] dir deletedFiles = (deletedFiles, dir)"
| "deleteFiles videoId (f # files) dir deletedFiles =
     (if prefix videoId f
      then (case map_of dir f of
              Some RegularFile \<Rightarrow> deleteFiles videoId files (removeEntry f dir) (deletedFiles @ [f])
            | _ \<Rightarrow> deleteFiles videoId files dir deletedFiles)
      else deleteFiles videoId files dir deletedFiles)"

text \<open>Second loop: the scratch directories \<open>temp_<videoId>...\<close>, removed recursively.\<close>

fun deleteDirs :: "string \<Rightarrow> string list \<Rightarrow> directory \<Rightarrow> string list \<Rightarrow> string list \<times> directory" where
  "deleteDirs videoId [] dir deletedFiles = (deletedFiles, dir)"
| "deleteDirs videoId (f # files) dir deletedFiles =
     (if prefix (''temp_'' @ videoId) f
      then (case map_of dir f of
              Some Directory \<Rightarrow> deleteDirs videoId files (removeEntry f dir) (deletedFiles @ [f])
            | _ \<Rightarrow> deleteDirs videoId files dir deletedFiles)
      else deleteDirs videoId files dir deletedFiles)"

definition DELETE :: "string \<Rightarrow> directory option \<Rightarrow> response \<times> directory option" where
  "DELETE videoId tempDir =
     (if videoId = [] then (BadRequest, tempDir)
      else (case tempDir of
              None \<Rightarrow> (Success videoId [], None)
            | Some dir \<Rightarrow>
                (let files = map fst dir
                 in case deleteFiles videoId files dir [] of
                      (deleted1, dir1) \<Rightarrow>
                        (case deleteDirs videoId files dir1 deleted1 of
                           (deleted2, dir2) \<Rightarrow> (Success videoId deleted2, Some dir2)))))"

section \<open>Properties of the Segment Merger\<close>

text \<open>
  The loop seen from its current unit: \<open>spans c segments\<close> are the units still to come
  when \<open>c\<close> is the current one, and \<open>groups g segments\<close> are the fragments behind them.
\<close>

definition mergeable :: "TranscriptSegment \<Rightarrow> TranscriptSegment \<Rightarrow> bool" where
  "mergeable c seg = (start seg - end' c < 0.3 \<and> end' seg - start c < 10)"

definition absorb :: "TranscriptSegment \<Rightarrow> TranscriptSegment \<Rightarrow> TranscriptSegment" where
  "absorb c seg = c\<lparr>end' := end' seg, text' := text' c @ '' '' @ text' seg\<rparr>"

fun spans :: "TranscriptSegment \<Rightarrow> TranscriptSegment list \<Rightarrow> TranscriptSegment list" where
  "spans c [] = [c]"
| "spans c (seg # segments) =
     (if mergeable c seg then spans (absorb c seg) segments else c # spans seg segments)"

fun groups :: "TranscriptSegment list \<Rightarrow> TranscriptSegment list \<Rightarrow> TranscriptSegment list list" where
  "groups g [] = [g]"
| "groups g (seg # segments) =
     (if mergeable (unit_of g) seg then groups (g @ [seg]) segments else g # groups [seg] segments)"

lemma mergeLoop_spans:
  "mergeLoop (Some c) merged segments = merged @ spans c segments"
  by (induction segments arbitrary: c merged) (simp_all add: Let_def mergeable_def absorb_def)

lemma mergeSegments_spans:
  "mergeSegments (seg # segments) = spans seg segments"
  by (simp add: mergeSegments_def mergeLoop_spans)

lemma joinText_snoc: "ts \<noteq> [] \<Longrightarrow> joinText (ts @ [t]) = joinText ts @ '' '' @ t"
  by (induction ts rule: joinText.induct) simp_all

lemma unit_of_snoc: "g \<noteq> [] \<Longrightarrow> unit_of (g @ [seg]) = absorb (unit_of g) seg"
  by (simp add: unit_of_def joinText_snoc absorb_def)

lemma unit_of_single: "unit_of [seg] = seg"
  by (simp add: unit_of_def)

lemma spans_groups: "g \<noteq> [] \<Longrightarrow> spans (unit_of g) segments = map unit_of (groups g segments)"
proof (induction segments arbitrary: g)
  case Nil
  then show ?case by simp
next
  case (Cons seg segments)
  show ?case
    using Cons.IH [of "g @ [seg]"] Cons.IH [of "[seg]"] Cons.prems
    by (simp add: unit_of_snoc unit_of_single)
qed

lemma concat_groups: "concat (groups g segments) = g @ segments"
  by (induction segments arbitrary: g) simp_all

lemma groups_nonempty: "g \<noteq> [] \<Longrightarrow> [] \<notin> set (groups g segments)"
proof (induction segments arbitrary: g)
  case Nil
  then show ?case by simp
next
  case (Cons seg segments)
  show ?case
    using Cons.IH [of "g @ [seg]"] Cons.IH [of "[seg]"] Cons.prems by simp
qed

lemma groups_hd: "g \<noteq> [] \<Longrightarrow> \<exists>h rest. groups g segments = h # rest \<and> hd h = hd g"
proof (induction segments arbitrary: g)
  case Nil
  then show ?case by simp
next
  case (Cons seg segments)
  show ?case
    using Cons.IH [of "g @ [seg]"] Cons.prems by simp
qed

lemma linked_snoc:
  "linked s0 p (qs @ [q]) = (linked s0 p qs \<and> start q - end' (last (p # qs)) < 0.3 \<and> end' q - s0 < 10)"
  by (induction qs arbitrary: p) auto

lemma merged_group_snoc:
  "merged_group g \<Longrightarrow> mergeable (unit_of g) q \<Longrightarrow> merged_group (g @ [q])"
  by (cases g) (simp_all add: linked_snoc mergeable_def unit_of_def)

lemma groups_merged: "merged_group g \<Longrightarrow> h \<in> set (groups g segments) \<Longrightarrow> merged_group h"
proof (induction segments arbitrary: g)
  case Nil
  then show ?case by simp
next
  case (Cons seg segments)
  show ?case
  proof (cases "mergeable (unit_of g) seg")
    case True
    then show ?thesis
      using Cons.IH [of "g @ [seg]"] Cons.prems by (simp add: merged_group_snoc)
  next
    case False
    then show ?thesis
      using Cons.IH [of "[seg]"] Cons.prems by auto
  qed
qed

lemma groups_separated: "g \<noteq> [] \<Longrightarrow> separated (groups g segments)"
proof (induction segments arbitrary: g)
  case Nil
  then show ?case by simp
next
  case (Cons seg segments)
  show ?case
  proof (cases "mergeable (unit_of g) seg")
    case True
    then show ?thesis using Cons.IH [of "g @ [seg]"] by simp
  next
    case False
    obtain h rest where h: "groups [seg] segments = h # rest" "hd h = seg"
      using groups_hd [of "[seg]" segments] by auto
    have "\<not> (start (hd h) - end' (last g) < 0.3 \<and> end' (hd h) - start (hd g) < 10)"
      using False h by (simp add: mergeable_def unit_of_def)
    then show ?thesis
      using False Cons.IH [of "[seg]"] h by simp
  qed
qed

lemma spans_starts: "u \<in> set (spans c segments) \<Longrightarrow> start u = start c \<or> start u \<in> start ` set segments"
proof (induction segments arbitrary: c)
  case Nil
  then show ?case by simp
next
  case (Cons seg segments)
  show ?case
  proof (cases "mergeable c seg")
    case True
    then show ?thesis using Cons.IH [of "absorb c seg"] Cons.prems by (auto simp: absorb_def)
  next
    case False
    then show ?thesis using Cons.IH [of seg] Cons.prems by auto
  qed
qed

lemma spans_sorted: "sorted (map start (c # segments)) \<Longrightarrow> sorted (map start (spans c segments))"
proof (induction segments arbitrary: c)
  case Nil
  then show ?case by simp
next
  case (Cons seg segments)
  show ?case
  proof (cases "mergeable c seg")
    case True
    have "sorted (map start (absorb c seg # segments))" using Cons.prems by (auto simp: absorb_def)
    then show ?thesis using True Cons.IH [of "absorb c seg"] by simp
  next
    case False
    have s: "sorted (map start (spans seg segments))" using Cons.prems Cons.IH [of seg] by simp
    have "\<forall>u \<in> set (spans seg segments). start c \<le> start u"
    proof
      fix u
      assume "u \<in> set (spans seg segments)"
      then have "start u = start seg \<or> start u \<in> start ` set segments"
        by (rule spans_starts)
      then show "start c \<le> start u" using Cons.prems by auto
    qed
    then show ?thesis using False s by simp
  qed
qed

lemma spans_hd: "\<exists>u rest. spans c segments = u # rest \<and> start u = start c"
proof (induction segments arbitrary: c)
  case Nil
  then show ?case by simp
next
  case (Cons seg segments)
  show ?case using Cons.IH [of "absorb c seg"] by (simp add: absorb_def)
qed

lemma spans_non_overlapping:
  "non_overlapping (c # segments) \<Longrightarrow> non_overlapping (spans c segments)"
proof (induction segments arbitrary: c)
  case Nil
  then show ?case by simp
next
  case (Cons seg segments)
  show ?case
  proof (cases "mergeable c seg")
    case True
    have "non_overlapping (absorb c seg # segments)"
      using Cons.prems by (cases segments) (auto simp: absorb_def)
    then show ?thesis using True Cons.IH [of "absorb c seg"] by simp
  next
    case False
    obtain u rest where u: "spans seg segments = u # rest" "start u = start seg"
      using spans_hd [of seg segments] by auto
    have "non_overlapping (spans seg segments)" using Cons.prems Cons.IH [of seg] by simp
    then show ?thesis using False u Cons.prems by simp
  qed
qed

text \<open>
  C5, as stated, fails: the output units can overlap. Two fragments ordered by start, the
  second starting one second before the first ends and ending eleven seconds after the
  first starts: the gap is below 0.3 but the combined span is not below 10, so they stay
  two units, and these overlap.
\<close>

theorem mergeSegments_overlap_counterexample:
  "sorted (map start [\<lparr>start = 0, end' = 6, text' = ''a''\<rparr>, \<lparr>start = 5, end' = 11, text' = ''b''\<rparr>])
   \<and> \<not> non_overlapping
         (mergeSegments [\<lparr>start = 0, end' = 6, text' = ''a''\<rparr>, \<lparr>start = 5, end' = 11, text' = ''b''\<rparr>])"
  by (simp add: mergeSegments_def)

text \<open>
  C5, amended. For fragments ordered by start, the merged units are ordered by start;
  they do not overlap when the fragments themselves do not; the fragments split into
  consecutive non-empty groups, one per unit and in the original order, each unit
  carrying its group's first start, last end and the texts joined by single spaces;
  inside a group every fragment follows its predecessor with a gap below 0.3 and ends
  less than 10 after the group's first start; and the first fragment of the next group
  fails that test against the group before it.
\<close>

theorem mergeSegments_groups:
  assumes "sorted (map start segments)"
  shows "sorted (map start (mergeSegments segments))
    \<and> (non_overlapping segments \<longrightarrow> non_overlapping (mergeSegments segments))
    \<and> (\<exists>gs. concat gs = segments \<and> mergeSegments segments = map unit_of gs
             \<and> (\<forall>g \<in> set gs. merged_group g) \<and> separated gs)"
proof (cases segments)
  case Nil
  have "concat [] = segments \<and> mergeSegments segments = map unit_of []
          \<and> (\<forall>g \<in> set []. merged_group g) \<and> separated []"
    using Nil by (simp add: mergeSegments_def)
  then show ?thesis using Nil by (auto simp: mergeSegments_def)
next
  case (Cons seg rest)
  let ?gs = "groups [seg] rest"
  have m: "mergeSegments segments = spans seg rest" using Cons by (simp add: mergeSegments_spans)
  have 1: "sorted (map start (mergeSegments segments))"
    using assms Cons m spans_sorted [of seg rest] by simp
  have 2: "non_overlapping segments \<longrightarrow> non_overlapping (mergeSegments segments)"
    using Cons m spans_non_overlapping [of seg rest] by simp
  have 3: "concat ?gs = segments" using Cons by (simp add: concat_groups)
  have 4: "mergeSegments segments = map unit_of ?gs"
    using m spans_groups [of "[seg]" rest] by (simp add: unit_of_single)
  have 5: "\<forall>g \<in> set ?gs. merged_group g" using groups_merged [of "[seg]" _ rest] by simp
  have 6: "separated ?gs" by (simp add: groups_separated)
  show ?thesis using 1 2 3 4 5 6 by blast
qed

theorem mergeSegments_groups_witness:
  "sorted (map start [\<lparr>start = 0, end' = 1, text' = ''a''\<rparr>, \<lparr>start = 1.1, end' = 2, text' = ''b''\<rparr>,
                      \<lparr>start = 5, end' = 6, text' = ''c''\<rparr>])
   \<and> non_overlapping [\<lparr>start = 0, end' = 1, text' = ''a''\<rparr>, \<lparr>start = 1.1, end' = 2, text' = ''b''\<rparr>,
                      \<lparr>start = 5, end' = 6, text' = ''c''\<rparr>]
   \<and> mergeSegments [\<lparr>start = 0, end' = 1, text' = ''a''\<rparr>, \<lparr>start = 1.1, end' = 2, text' = ''b''\<rparr>,
                      \<lparr>start = 5, end' = 6, text' = ''c''\<rparr>]
       = [\<lparr>start = 0, end' = 2, text' = ''a b''\<rparr>, \<lparr>start = 5, end' = 6, text' = ''c''\<rparr>]
   \<and> non_overlapping (mergeSegments [\<lparr>start = 0, end' = 1, text' = ''a''\<rparr>,
         \<lparr>start = 1.1, end' = 2, text' = ''b''\<rparr>, \<lparr>start = 5, end' = 6, text' = ''c''\<rparr>])
   \<and> (\<exists>gs. concat gs = [\<lparr>start = 0, end' = 1, text' = ''a''\<rparr>, \<lparr>start = 1.1, end' = 2, text' = ''b''\<rparr>,
                           \<lparr>start = 5, end' = 6, text' = ''c''\<rparr>]
          \<and> [\<lparr>start = 0, end' = 2, text' = ''a b''\<rparr>, \<lparr>start = 5, end' = 6, text' = ''c''\<rparr>] = map unit_of gs
          \<and> (\<forall>g \<in> set gs. merged_group g) \<and> separated gs)"
proof -
  let ?S = "[\<lparr>start = 0, end' = 1, text' = ''a''\<rparr>, \<lparr>start = 1.1, end' = 2, text' = ''b''\<rparr>,
             \<lparr>start = 5, end' = 6, text' = ''c''\<rparr>]"
  have h: "sorted (map start ?S)" by simp
  have n: "non_overlapping ?S" by simp
  have e: "mergeSegments ?S = [\<lparr>start = 0, end' = 2, text' = ''a b''\<rparr>, \<lparr>start = 5, end' = 6, text' = ''c''\<rparr>]"
    by (simp add: mergeSegments_def)
  show ?thesis using h n e mergeSegments_groups [OF h] by simp
qed

section \<open>Properties of the Translation Mapper\<close>



lemma answerFor_other:
  "index' \<noteq> JNum (real k) \<Longrightarrow> answerFor (Translation index' tx # ts) k = answerFor ts k"
  by simp


text \<open>
  C3: the code does not do what the claim says for a negative index. Such an index is not
  discarded: it passes the guard (which only has the upper bound), the read of
  \<open>segments[-1]\<close> is undefined, and the whole mapping fails, also losing the unit of
  index 0 that was already mapped.
\<close>

theorem translateTranscript_negative_index_throws:
  "translateTranscript stringToNumber
     [\<lparr>start = 0, end' = 2, text' = ''a''\<rparr>, \<lparr>start = 2, end' = 4, text' = ''b''\<rparr>,
      \<lparr>start = 4, end' = 6, text' = ''c''\<rparr>]
     [Translation (JNum 0) ''x'', Translation (JNum (- 1)) ''y'']
   = Throws TranslationFailed"
  by (simp add: translateTranscript_def lessThanLength_def toNumber_def has_def elementAt_def)

text \<open>The scenario of C3 itself (index 2 twice, index 1 missing, answers out of order)
  gives the units of indices 0 and 2, in that order, the first text for index 2 kept.\<close>

lemma translateTranscript_scenario_C:
  "translateTranscript stringToNumber
     [\<lparr>start = 0, end' = 2, text' = ''a''\<rparr>, \<lparr>start = 2, end' = 4, text' = ''b''\<rparr>,
      \<lparr>start = 4, end' = 6, text' = ''c''\<rparr>]
     [Translation (JNum 2) ''z'', Translation (JNum 0) ''x'', Translation (JNum 2) ''y'',
      Translation (JNum 7) ''w'']
   = Returns [\<lparr>start = 0, end' = 2, text' = ''x''\<rparr>, \<lparr>start = 4, end' = 6, text' = ''z''\<rparr>]"
  by (simp add: translateTranscript_def lessThanLength_def toNumber_def has_def elementAt_def)








section \<open>Properties of the Timing Resolver\<close>

lemma atempoFilters_3: "atempoFilters 3 = [2, 3 / 2]"
proof -
  have "atempoFilters 3 = 2 # atempoFilters (3 / 2)" by (subst atempoFilters.simps) simp
  also have "atempoFilters (3 / 2) = [toFixed4 (3 / 2)]" by (subst atempoFilters.simps) simp
  also have "toFixed4 (3 / 2) = 3 / 2" by (simp add: toFixed4_def)
  finally show ?thesis .
qed

lemma atempoFilters_2: "atempoFilters 2 = [2]"
proof -
  have "atempoFilters 2 = [toFixed4 2]" by (subst atempoFilters.simps) simp
  also have "toFixed4 2 = 2" by (simp add: toFixed4_def)
  finally show ?thesis .
qed

lemma atempoFilters_nonempty: "1 < f \<Longrightarrow> atempoFilters f \<noteq> []"
  by (subst atempoFilters.simps) simp

lemma availableTime_pos:
  assumes "start (sortedSegments ! i) < end' (sortedSegments ! i)"
  shows "0 < availableTime sortedSegments i"
proof -
  have "0 < max x (0.5 :: real)" for x by (simp add: less_max_iff_disj)
  then show ?thesis using assms by (simp add: availableTime_def Let_def)
qed

lemma toFixed4_close: "\<bar>toFixed4 x - x\<bar> \<le> 1 / 20000"
proof -
  have "\<bar>real_of_int (round (x * 10000)) - x * 10000\<bar> \<le> 1 / 2" by (rule of_int_round_abs_le)
  then have "\<bar>(real_of_int (round (x * 10000)) - x * 10000) / 10000\<bar> \<le> (1 / 2) / 10000"
    by (simp add: abs_divide)
  moreover have "(real_of_int (round (x * 10000)) - x * 10000) / 10000 = toFixed4 x - x"
    by (simp add: toFixed4_def diff_divide_distrib)
  ultimately show ?thesis by simp
qed

text \<open>The chain realises the factor it is computed from, up to the rounding of its last
  stage to four decimals.\<close>

lemma atempoFilters_product: "1 < f \<Longrightarrow> \<bar>prod_list (atempoFilters f) - f\<bar> \<le> f / 20000"
proof (induction f rule: atempoFilters.induct)
  case (1 f)
  show ?case
  proof (cases "2 < f")
    case True
    have eq: "atempoFilters f = 2 # atempoFilters (f / 2)"
      using True by (subst atempoFilters.simps) simp
    have "\<bar>prod_list (atempoFilters (f / 2)) - f / 2\<bar> \<le> (f / 2) / 20000"
      using "1.IH" True by simp
    then have "\<bar>2 * prod_list (atempoFilters (f / 2)) - f\<bar> \<le> f / 20000"
      by linarith
    then show ?thesis by (simp only: eq prod_list.Cons)
  next
    case False
    have eq: "atempoFilters f = [toFixed4 f]"
      using False "1.prems" by (subst atempoFilters.simps) simp
    have "\<bar>toFixed4 f - f\<bar> \<le> 1 / 20000" by (rule toFixed4_close)
    also have "\<dots> \<le> f / 20000" using "1.prems" by simp
    finally show ?thesis by (simp add: eq)
  qed
qed

text \<open>So the clip the chain aims at has the target duration, up to the same rounding.\<close>

lemma target_bound:
  fixes avail f P :: real
  assumes "0 < avail" and "1 < f" and b: "\<bar>P - f\<bar> \<le> f / 20000"
  shows "\<bar>f * avail / P - avail\<bar> \<le> avail / 19999"
proof -
  have lb: "f * (19999 / 20000) \<le> P" using b by linarith
  have fpos: "0 < f * (19999 / 20000)" using assms(2) by simp
  have Ppos: "0 < P" using lb fpos by linarith
  have "f * avail / P - avail = avail * (f - P) / P"
    using Ppos by (simp add: field_simps)
  then have "\<bar>f * avail / P - avail\<bar> = avail * \<bar>f - P\<bar> / P"
    using Ppos assms(1) by (simp add: abs_mult)
  also have "\<dots> \<le> avail * (f / 20000) / P"
  proof -
    have "\<bar>f - P\<bar> \<le> f / 20000" using b by linarith
    then have "avail * \<bar>f - P\<bar> \<le> avail * (f / 20000)"
      using assms(1) by (intro mult_left_mono) simp_all
    then show ?thesis using Ppos by (intro divide_right_mono) simp_all
  qed
  also have "\<dots> \<le> avail * (f / 20000) / (f * (19999 / 20000))"
  proof -
    have "0 \<le> avail * (f / 20000)" using assms by simp
    then show ?thesis using lb fpos Ppos by (intro divide_left_mono) simp_all
  qed
  also have "\<dots> = avail / 19999" using assms(2) by simp
  finally show ?thesis .
qed

lemma atempoFilters_target:
  assumes "0 < avail" and "avail < tts"
  shows "\<bar>tts / prod_list (atempoFilters (tts / avail)) - avail\<bar> \<le> avail / 19999"
proof -
  have f: "1 < tts / avail" using assms by simp
  have "\<bar>prod_list (atempoFilters (tts / avail)) - tts / avail\<bar> \<le> (tts / avail) / 20000"
    using f by (rule atempoFilters_product)
  then have "\<bar>(tts / avail) * avail / prod_list (atempoFilters (tts / avail)) - avail\<bar> \<le> avail / 19999"
    by (rule target_bound [OF assms(1) f])
  moreover have "(tts / avail) * avail = tts" using assms(1) by simp
  ultimately show ?thesis by simp
qed

lemma adjustAudioSpeed_tool:
  assumes "fs inputPath = Some (Audio c actual)" and "0 < target" and "target < actual"
  shows "adjustAudioSpeed ext fs inputPath outputPath target =
     (case atempo ext (atempoFilters (actual / target)) (Audio c actual) of
        Some out \<Rightarrow> Returns (fs(outputPath \<mapsto> out))
      | None \<Rightarrow> Returns (fs(outputPath \<mapsto> Audio c actual)))"
proof -
  have "1 < actual / target" using assms(2,3) by simp
  then have "atempoFilters (actual / target) \<noteq> []" by (rule atempoFilters_nonempty)
  then show ?thesis
    using assms
    by (simp add: adjustAudioSpeed_def getAudioDuration_def copyFileSync_def Let_def
          split: option.splits)
qed

lemma resolveSegment_over:
  assumes "fs (audioPath (sortedSegments ! i)) = Some (Audio c tts)"
    and "availableTime sortedSegments i < tts"
    and "0 < availableTime sortedSegments i"
  shows "resolveSegment ext fs sortedSegments i =
           speedUp ext fs (sortedSegments ! i)
             (if tts / availableTime sortedSegments i \<le> 3 then availableTime sortedSegments i else tts / 3)"
  using assms by (auto simp: resolveSegment_def getAudioDuration_def Let_def maxSpeedup_def)


lemma js_replace_length:
  "sublist pat s \<Longrightarrow> length (js_replace pat rep s) + length pat = length s + length rep"
proof (induction s)
  case Nil
  then show ?case by simp
next
  case (Cons c cs)
  show ?case
  proof (cases "prefix pat (c # cs)")
    case True
    then have "length pat \<le> length (c # cs)" by (rule prefix_length_le)
    then show ?thesis using True by simp
  next
    case False
    then have "sublist pat cs" using Cons.prems by (simp add: sublist_Cons_right)
    then show ?thesis using False Cons.IH by simp
  qed
qed

lemma adjustedPathOf_differs: "sublist ''.mp3'' p \<Longrightarrow> adjustedPathOf p \<noteq> p"
proof
  assume a: "sublist ''.mp3'' p" and e: "adjustedPathOf p = p"
  have "length (adjustedPathOf p) + length ''.mp3'' = length p + length ''_adjusted.mp3''"
    unfolding adjustedPathOf_def using a by (rule js_replace_length)
  then show False using e by simp
qed

lemma segment_path_has_mp3: "sublist ''.mp3'' (join outputDir (segmentFileName videoId i))"
proof -
  have "join outputDir (segmentFileName videoId i)
          = (outputDir @ ''/'' @ videoId @ ''_segment_'' @ decimal i) @ ''.mp3''"
    by (simp add: join_def segmentFileName_def)
  then show ?thesis by (metis sublist_append_leftI)
qed

text \<open>
  Runs to evaluate the resolver on: the unit 0-1 synthesized to 4 seconds (or to 2 seconds
  in a second temp directory), its successor starting at 1.2 and synthesized to half a
  second; a tool that answers the chain \<open>[2.0, 1.5]\<close> with a clip of 1.4 seconds and
  fails on any other chain, one that answers the chain \<open>[2.0]\<close> only, with a clip of
  1.05 seconds, and one that always fails.
\<close>

definition clipsB :: "AudioSegment list" where
  "clipsB = [\<lparr>start = 0, end' = 1, text' = ''a'', audioPath = ''temp/v_segment_0.mp3''\<rparr>,
             \<lparr>start = 1.2, end' = 2, text' = ''b'', audioPath = ''temp/v_segment_1.mp3''\<rparr>]"

definition diskB :: filesystem where
  "diskB = [''temp/v_segment_0.mp3'' \<mapsto> Audio ''a'' 4, ''temp/v_segment_1.mp3'' \<mapsto> Audio ''b'' 0.5]"

definition toolsCapped :: tools where
  "toolsCapped = \<lparr>atempo = (\<lambda>filters f. if filters = [2, 3 / 2] then Some (Audio ''fast'' 1.4) else None),
                   amix = (\<lambda>inputs delays t. Some (Audio ''mix'' t)),
                   loudnorm = (\<lambda>f. None)\<rparr>"

definition diskA :: filesystem where
  "diskA = [''temp/v_segment_0.mp3'' \<mapsto> Audio ''a'' 2, ''temp/v_segment_1.mp3'' \<mapsto> Audio ''b'' 0.5]"

definition toolsWithin :: tools where
  "toolsWithin = \<lparr>atempo = (\<lambda>filters f. if filters = [2] then Some (Audio ''fast'' 1.05) else None),
                   amix = (\<lambda>inputs delays t. Some (Audio ''mix'' t)),
                   loudnorm = (\<lambda>f. None)\<rparr>"

definition toolsFailing :: tools where
  "toolsFailing = \<lparr>atempo = (\<lambda>filters f. None),
                    amix = (\<lambda>inputs delays t. None),
                    loudnorm = (\<lambda>f. None)\<rparr>"

lemma availB: "availableTime clipsB 0 = 1" "availableTime clipsB 1 = 0.8"
  "availableTime clipsB (Suc 0) = 0.8"
  by (simp_all add: availableTime_def clipsB_def)

text \<open>
  C1. For a list of clips sorted by start (which the stable sort then leaves as it is) and
  every position \<open>i\<close>: at the last position the available time is \<open>end - start\<close>, and
  elsewhere it is \<open>max (min (end - start) (next start - start)) 0.5\<close>.
\<close>

theorem availableTime_sorted:
  assumes "sorted (map start segments)" and "i < length segments"
  shows "availableTime (sort_key start segments) i =
     (if i = length segments - 1 then end' (segments ! i) - start (segments ! i)
      else max (min (end' (segments ! i) - start (segments ! i))
                    (start (segments ! (i + 1)) - start (segments ! i))) 0.5)"
proof -
  have "sort_key start segments = segments" using assms(1) by (rule sort_key_id_if_sorted)
  moreover have "(int i < int (length segments) - 1) = (i \<noteq> length segments - 1)"
    using assms(2) by auto
  ultimately show ?thesis by (simp add: availableTime_def Let_def)
qed

text \<open>The unit spanning 0-1 whose successor starts at 1.2 has 1.0 available; the last
  unit has its own window.\<close>

theorem availableTime_sorted_witness:
  "sorted (map start [\<lparr>start = 0, end' = 1, text' = ''a'', audioPath = ''v_segment_0.mp3''\<rparr>,
                      \<lparr>start = 1.2, end' = 2, text' = ''b'', audioPath = ''v_segment_1.mp3''\<rparr>])
   \<and> availableTime (sort_key start
         [\<lparr>start = 0, end' = 1, text' = ''a'', audioPath = ''v_segment_0.mp3''\<rparr>,
          \<lparr>start = 1.2, end' = 2, text' = ''b'', audioPath = ''v_segment_1.mp3''\<rparr>]) 0 = 1
   \<and> availableTime (sort_key start
         [\<lparr>start = 0, end' = 1, text' = ''a'', audioPath = ''v_segment_0.mp3''\<rparr>,
          \<lparr>start = 1.2, end' = 2, text' = ''b'', audioPath = ''v_segment_1.mp3''\<rparr>]) 1 = 0.8"
proof -
  let ?S = "[\<lparr>start = 0, end' = 1, text' = ''a'', audioPath = ''v_segment_0.mp3''\<rparr>,
             \<lparr>start = 1.2, end' = 2, text' = ''b'', audioPath = ''v_segment_1.mp3''\<rparr>]"
  have h: "sorted (map start ?S)" by simp
  have "availableTime (sort_key start ?S) 0 = 1"
    using availableTime_sorted [OF h, of 0] by simp
  moreover have "availableTime (sort_key start ?S) 1 = 0.8"
    using availableTime_sorted [OF h, of 1] by simp
  ultimately show ?thesis using h by simp
qed

text \<open>
  C4. A clip that exists, probes to a duration not above its available time: the entry
  records that duration, is not flagged as adjusted and keeps the clip's own path, and
  the temp directory is left as it was (no derived file).
\<close>

theorem resolveSegment_fits:
  assumes "fs (audioPath (sortedSegments ! i)) = Some (Audio c tts)"
    and "tts \<le> availableTime sortedSegments i"
  shows "\<exists>entry. resolveSegment ext fs sortedSegments i = (Returns (Some entry), fs)
           \<and> audioDuration entry = tts \<and> wasAdjusted entry = False
           \<and> audioPath entry = audioPath (sortedSegments ! i)
           \<and> exactStart entry = start (sortedSegments ! i)"
  using assms
  by (simp add: resolveSegment_def getAudioDuration_def Let_def adjustedEntry_def dom_def)

theorem resolveSegment_fits_witness:
  "diskB (audioPath (clipsB ! 1)) = Some (Audio ''b'' 0.5)
   \<and> 0.5 \<le> availableTime clipsB 1
   \<and> (\<exists>entry. resolveSegment toolsCapped diskB clipsB 1 = (Returns (Some entry), diskB)
           \<and> audioDuration entry = 0.5 \<and> wasAdjusted entry = False
           \<and> audioPath entry = audioPath (clipsB ! 1)
           \<and> exactStart entry = start (clipsB ! 1))"
proof -
  have h1: "diskB (audioPath (clipsB ! 1)) = Some (Audio ''b'' 0.5)"
    by (simp add: diskB_def clipsB_def)
  have h2: "0.5 \<le> availableTime clipsB 1" by (simp add: availB)
  show ?thesis
    using h1 h2 resolveSegment_fits [where fs = diskB and sortedSegments = clipsB and i = 1
      and c = "''b''" and tts = "0.5" and ext = toolsCapped]
    by blast
qed

text \<open>
  C2. A clip of a unit with \<open>start < end\<close> whose measured duration exceeds its available
  time. Within the ceiling the tool is run with a chain whose product is the speed factor
  \<open>duration / availableTime\<close> up to the rounding of its last stage to four decimals, so
  that the duration it aims at is \<open>availableTime\<close> up to that rounding; beyond the ceiling
  the chain is \<open>[2.0, 1.5]\<close>, whose product is the ceiling exactly, however small the
  window, and the duration aimed at is \<open>duration / 3\<close>. Whatever clip the tool writes,
  the entry records the duration probed from that clip.
\<close>

theorem resolveSegment_compresses:
  assumes "fs (audioPath (sortedSegments ! i)) = Some (Audio c tts)"
    and "start (sortedSegments ! i) < end' (sortedSegments ! i)"
    and "availableTime sortedSegments i < tts"
    and "atempo ext
           (if tts / availableTime sortedSegments i \<le> maxSpeedup
            then atempoFilters (tts / availableTime sortedSegments i) else [2, 3 / 2])
           (Audio c tts) = Some (Audio c' d')"
  shows "resolveSegment ext fs sortedSegments i =
           (Returns (Some (adjustedEntry (sortedSegments ! i)
                             (adjustedPathOf (audioPath (sortedSegments ! i))) d')),
            fs(adjustedPathOf (audioPath (sortedSegments ! i)) \<mapsto> Audio c' d'))
       \<and> audioDuration (adjustedEntry (sortedSegments ! i)
                             (adjustedPathOf (audioPath (sortedSegments ! i))) d') = d'
       \<and> prod_list [2, 3 / 2] = maxSpeedup
       \<and> (if tts / availableTime sortedSegments i \<le> maxSpeedup
           then \<bar>prod_list (atempoFilters (tts / availableTime sortedSegments i))
                   - tts / availableTime sortedSegments i\<bar>
                  \<le> (tts / availableTime sortedSegments i) / 20000
              \<and> \<bar>tts / prod_list (atempoFilters (tts / availableTime sortedSegments i))
                   - availableTime sortedSegments i\<bar>
                  \<le> availableTime sortedSegments i / 19999
           else tts / prod_list [2, 3 / 2] = tts / maxSpeedup)"
proof -
  let ?avail = "availableTime sortedSegments i"
  let ?target = "if tts / ?avail \<le> maxSpeedup then ?avail else tts / maxSpeedup"
  let ?seg = "sortedSegments ! i"
  let ?adj = "adjustedPathOf (audioPath ?seg)"
  have pos: "0 < ?avail" using assms(2) by (rule availableTime_pos)
  have tpos: "0 < tts" using pos assms(3) by simp
  have target: "0 < ?target" "?target < tts" using pos tpos assms(3) by (auto simp: maxSpeedup_def)
  have "tts / (tts / 3) = 3" using tpos by simp
  then have chain: "atempoFilters (tts / ?target)
      = (if tts / ?avail \<le> maxSpeedup then atempoFilters (tts / ?avail) else [2, 3 / 2])"
    by (simp add: maxSpeedup_def atempoFilters_3)
  have adj: "adjustAudioSpeed ext fs (audioPath ?seg) ?adj ?target = Returns (fs(?adj \<mapsto> Audio c' d'))"
    using adjustAudioSpeed_tool [where fs = fs and inputPath = "audioPath ?seg" and c = c
        and actual = tts and target = ?target and ext = ext and outputPath = ?adj]
      assms(1) target assms(4) chain
    by simp
  have "resolveSegment ext fs sortedSegments i = speedUp ext fs ?seg ?target"
    using resolveSegment_over [where fs = fs and sortedSegments = sortedSegments and i = i
        and c = c and tts = tts and ext = ext] assms(1) assms(3) pos
    by (simp add: maxSpeedup_def)
  also have "\<dots> = (Returns (Some (adjustedEntry ?seg ?adj d')), fs(?adj \<mapsto> Audio c' d'))"
    using adj by (simp add: speedUp_def Let_def getAudioDuration_def)
  finally have 1: "resolveSegment ext fs sortedSegments i
      = (Returns (Some (adjustedEntry ?seg ?adj d')), fs(?adj \<mapsto> Audio c' d'))" .
  have 2: "audioDuration (adjustedEntry ?seg ?adj d') = d'" by (simp add: adjustedEntry_def)
  have 3: "prod_list [2, 3 / 2] = maxSpeedup" by (simp add: maxSpeedup_def)
  have over: "1 < tts / ?avail" using pos assms(3) by simp
  have 4: "\<bar>prod_list (atempoFilters (tts / ?avail)) - tts / ?avail\<bar> \<le> (tts / ?avail) / 20000"
    using over by (rule atempoFilters_product)
  have 5: "\<bar>tts / prod_list (atempoFilters (tts / ?avail)) - ?avail\<bar> \<le> ?avail / 19999"
    using pos assms(3) by (rule atempoFilters_target)
  have 6: "tts / prod_list [2, 3 / 2] = tts / maxSpeedup" by (simp add: maxSpeedup_def)
  show ?thesis using 1 2 3 4 5 6 by simp
qed

theorem resolveSegment_compresses_witness:
  "diskB (audioPath (clipsB ! 0)) = Some (Audio ''a'' 4)
   \<and> diskA (audioPath (clipsB ! 0)) = Some (Audio ''a'' 2)
   \<and> start (clipsB ! 0) < end' (clipsB ! 0)
   \<and> availableTime clipsB 0 = 1
   \<and> resolveSegment toolsCapped diskB clipsB 0 =
        (Returns (Some \<lparr>start = 0, end' = 1, text' = ''a'',
                         audioPath = ''temp/v_segment_0_adjusted.mp3'',
                         originalPath = ''temp/v_segment_0.mp3'', wasAdjusted = True,
                         audioDuration = 1.4, exactStart = 0\<rparr>),
         diskB(''temp/v_segment_0_adjusted.mp3'' \<mapsto> Audio ''fast'' 1.4))
   \<and> resolveSegment toolsWithin diskA clipsB 0 =
        (Returns (Some \<lparr>start = 0, end' = 1, text' = ''a'',
                         audioPath = ''temp/v_segment_0_adjusted.mp3'',
                         originalPath = ''temp/v_segment_0.mp3'', wasAdjusted = True,
                         audioDuration = 1.05, exactStart = 0\<rparr>),
         diskA(''temp/v_segment_0_adjusted.mp3'' \<mapsto> Audio ''fast'' 1.05))
   \<and> \<bar>prod_list (atempoFilters 2) - 2\<bar> \<le> 2 / 20000
   \<and> \<bar>2 / prod_list (atempoFilters 2) - 1\<bar> \<le> 1 / 19999
   \<and> 4 / prod_list [2, 3 / 2] = 4 / maxSpeedup"
proof -
  have h1: "diskB (audioPath (clipsB ! 0)) = Some (Audio ''a'' 4)"
    by (simp add: diskB_def clipsB_def)
  have k1: "diskA (audioPath (clipsB ! 0)) = Some (Audio ''a'' 2)"
    by (simp add: diskA_def clipsB_def)
  have h2: "start (clipsB ! 0) < end' (clipsB ! 0)" by (simp add: clipsB_def)
  have h3: "availableTime clipsB 0 < 4" by (simp add: availB)
  have k3: "availableTime clipsB 0 < 2" by (simp add: availB)
  have h4: "atempo toolsCapped
           (if 4 / availableTime clipsB 0 \<le> maxSpeedup
            then atempoFilters (4 / availableTime clipsB 0) else [2, 3 / 2])
           (Audio ''a'' 4) = Some (Audio ''fast'' 1.4)"
    by (simp add: availB maxSpeedup_def toolsCapped_def)
  have k4: "atempo toolsWithin
           (if 2 / availableTime clipsB 0 \<le> maxSpeedup
            then atempoFilters (2 / availableTime clipsB 0) else [2, 3 / 2])
           (Audio ''a'' 2) = Some (Audio ''fast'' 1.05)"
    by (simp add: availB maxSpeedup_def toolsWithin_def atempoFilters_2)
  have p: "adjustedPathOf (audioPath (clipsB ! 0)) = ''temp/v_segment_0_adjusted.mp3''"
    by (simp add: adjustedPathOf_def clipsB_def)
  have e: "adjustedEntry (clipsB ! 0) ''temp/v_segment_0_adjusted.mp3'' d =
      \<lparr>start = 0, end' = 1, text' = ''a'', audioPath = ''temp/v_segment_0_adjusted.mp3'',
       originalPath = ''temp/v_segment_0.mp3'', wasAdjusted = True,
       audioDuration = d, exactStart = 0\<rparr>" for d
    by (simp add: adjustedEntry_def clipsB_def)
  have three: "\<not> (4 :: real) \<le> maxSpeedup" "(2 :: real) \<le> maxSpeedup" by (simp_all add: maxSpeedup_def)
  have capped: "resolveSegment toolsCapped diskB clipsB 0 =
        (Returns (Some \<lparr>start = 0, end' = 1, text' = ''a'',
                         audioPath = ''temp/v_segment_0_adjusted.mp3'',
                         originalPath = ''temp/v_segment_0.mp3'', wasAdjusted = True,
                         audioDuration = 1.4, exactStart = 0\<rparr>),
         diskB(''temp/v_segment_0_adjusted.mp3'' \<mapsto> Audio ''fast'' 1.4))
      \<and> 4 / prod_list [2, 3 / 2] = 4 / maxSpeedup"
    using h1 h2 h3 h4 p e three
      resolveSegment_compresses [where fs = diskB and sortedSegments = clipsB and i = 0
        and c = "''a''" and tts = 4 and ext = toolsCapped and c' = "''fast''" and d' = "1.4"]
    by (simp add: availB)
  have within: "resolveSegment toolsWithin diskA clipsB 0 =
        (Returns (Some \<lparr>start = 0, end' = 1, text' = ''a'',
                         audioPath = ''temp/v_segment_0_adjusted.mp3'',
                         originalPath = ''temp/v_segment_0.mp3'', wasAdjusted = True,
                         audioDuration = 1.05, exactStart = 0\<rparr>),
         diskA(''temp/v_segment_0_adjusted.mp3'' \<mapsto> Audio ''fast'' 1.05))
      \<and> \<bar>prod_list (atempoFilters 2) - 2\<bar> \<le> 2 / 20000
      \<and> \<bar>2 / prod_list (atempoFilters 2) - 1\<bar> \<le> 1 / 19999"
    using k1 h2 k3 k4 p e three
      resolveSegment_compresses [where fs = diskA and sortedSegments = clipsB and i = 0
        and c = "''a''" and tts = 2 and ext = toolsWithin and c' = "''fast''" and d' = "1.05"]
    by (simp add: availB)
  show ?thesis using h1 k1 h2 availB(1) capped within by simp
qed

text \<open>
  C9. The same clip when the tool exits non-zero, its path containing \<open>.mp3\<close> as every
  synthesized clip's path does: the original is copied unchanged to the derived path,
  the entry is flagged as adjusted although its duration is the original one, and the
  cleanup of this entry removes the copy and leaves the original.
\<close>

theorem resolveSegment_fallback:
  assumes "fs (audioPath (sortedSegments ! i)) = Some (Audio c tts)"
    and "start (sortedSegments ! i) < end' (sortedSegments ! i)"
    and "availableTime sortedSegments i < tts"
    and "sublist ''.mp3'' (audioPath (sortedSegments ! i))"
    and "atempo ext
           (if tts / availableTime sortedSegments i \<le> maxSpeedup
            then atempoFilters (tts / availableTime sortedSegments i) else [2, 3 / 2])
           (Audio c tts) = None"
  shows "\<exists>entry fs'. resolveSegment ext fs sortedSegments i = (Returns (Some entry), fs')
       \<and> fs' = fs(adjustedPathOf (audioPath (sortedSegments ! i)) \<mapsto> Audio c tts)
       \<and> fs' (audioPath entry) = fs (originalPath entry)
       \<and> audioPath entry = adjustedPathOf (audioPath (sortedSegments ! i))
       \<and> originalPath entry = audioPath (sortedSegments ! i)
       \<and> audioPath entry \<noteq> originalPath entry
       \<and> wasAdjusted entry = True
       \<and> audioDuration entry = tts
       \<and> unlinkAdjusted fs' [entry] = fs'(audioPath entry := None)
       \<and> unlinkAdjusted fs' [entry] (originalPath entry) = Some (Audio c tts)"
proof -
  let ?avail = "availableTime sortedSegments i"
  let ?target = "if tts / ?avail \<le> maxSpeedup then ?avail else tts / maxSpeedup"
  let ?seg = "sortedSegments ! i"
  let ?adj = "adjustedPathOf (audioPath ?seg)"
  let ?fs' = "fs(?adj \<mapsto> Audio c tts)"
  let ?entry = "adjustedEntry ?seg ?adj tts"
  have pos: "0 < ?avail" using assms(2) by (rule availableTime_pos)
  have tpos: "0 < tts" using pos assms(3) by simp
  have target: "0 < ?target" "?target < tts" using pos tpos assms(3) by (auto simp: maxSpeedup_def)
  have differs: "?adj \<noteq> audioPath ?seg" using assms(4) by (rule adjustedPathOf_differs)
  have "tts / (tts / 3) = 3" using tpos by simp
  then have chain: "atempoFilters (tts / ?target)
      = (if tts / ?avail \<le> maxSpeedup then atempoFilters (tts / ?avail) else [2, 3 / 2])"
    by (simp add: maxSpeedup_def atempoFilters_3)
  have adj: "adjustAudioSpeed ext fs (audioPath ?seg) ?adj ?target = Returns ?fs'"
    using adjustAudioSpeed_tool [where fs = fs and inputPath = "audioPath ?seg" and c = c
        and actual = tts and target = ?target and ext = ext and outputPath = ?adj]
      assms(1) target assms(5) chain
    by simp
  have "resolveSegment ext fs sortedSegments i = speedUp ext fs ?seg ?target"
    using resolveSegment_over [where fs = fs and sortedSegments = sortedSegments and i = i
        and c = c and tts = tts and ext = ext] assms(1) assms(3) pos
    by (simp add: maxSpeedup_def)
  also have "\<dots> = (Returns (Some ?entry), ?fs')"
    using adj by (simp add: speedUp_def Let_def getAudioDuration_def)
  finally have 1: "resolveSegment ext fs sortedSegments i = (Returns (Some ?entry), ?fs')" .
  have 2: "audioPath ?entry = ?adj" "originalPath ?entry = audioPath ?seg"
    "wasAdjusted ?entry = True" "audioDuration ?entry = tts"
    using differs by (simp_all add: adjustedEntry_def)
  have 3: "unlinkAdjusted ?fs' [?entry] = ?fs'(audioPath ?entry := None)"
    using 2 by (simp add: tryUnlink_def unlinkSync_def)
  have 4: "unlinkAdjusted ?fs' [?entry] (originalPath ?entry) = Some (Audio c tts)"
    using 2 3 differs assms(1) by simp
  have 5: "?fs' (audioPath ?entry) = fs (originalPath ?entry)" using 2 assms(1) by simp
  show ?thesis using 1 2 3 4 5 differs by simp
qed

theorem resolveSegment_fallback_witness:
  "diskB (audioPath (clipsB ! 0)) = Some (Audio ''a'' 4)
   \<and> start (clipsB ! 0) < end' (clipsB ! 0)
   \<and> availableTime clipsB 0 < 4
   \<and> sublist ''.mp3'' (audioPath (clipsB ! 0))
   \<and> (\<exists>entry fs'. resolveSegment toolsFailing diskB clipsB 0 = (Returns (Some entry), fs')
       \<and> fs' = diskB(''temp/v_segment_0_adjusted.mp3'' \<mapsto> Audio ''a'' 4)
       \<and> audioPath entry = ''temp/v_segment_0_adjusted.mp3''
       \<and> originalPath entry = ''temp/v_segment_0.mp3''
       \<and> wasAdjusted entry = True
       \<and> audioDuration entry = 4
       \<and> unlinkAdjusted fs' [entry] ''temp/v_segment_0_adjusted.mp3'' = None
       \<and> unlinkAdjusted fs' [entry] ''temp/v_segment_0.mp3'' = Some (Audio ''a'' 4))"
proof -
  have h1: "diskB (audioPath (clipsB ! 0)) = Some (Audio ''a'' 4)"
    by (simp add: diskB_def clipsB_def)
  have h2: "start (clipsB ! 0) < end' (clipsB ! 0)" by (simp add: clipsB_def)
  have h3: "availableTime clipsB 0 < 4" by (simp add: availB)
  have h4: "sublist ''.mp3'' (audioPath (clipsB ! 0))"
    by (simp add: clipsB_def sublist_Cons_right)
  have h5: "atempo toolsFailing
           (if 4 / availableTime clipsB 0 \<le> maxSpeedup
            then atempoFilters (4 / availableTime clipsB 0) else [2, 3 / 2])
           (Audio ''a'' 4) = None"
    by (simp add: toolsFailing_def)
  have p: "adjustedPathOf (audioPath (clipsB ! 0)) = ''temp/v_segment_0_adjusted.mp3''"
    "audioPath (clipsB ! 0) = ''temp/v_segment_0.mp3''"
    by (simp_all add: adjustedPathOf_def clipsB_def)
  obtain entry fs' where r: "resolveSegment toolsFailing diskB clipsB 0 = (Returns (Some entry), fs')"
       "fs' = diskB(adjustedPathOf (audioPath (clipsB ! 0)) \<mapsto> Audio ''a'' 4)"
       "audioPath entry = adjustedPathOf (audioPath (clipsB ! 0))"
       "originalPath entry = audioPath (clipsB ! 0)"
       "wasAdjusted entry = True"
       "audioDuration entry = 4"
       "unlinkAdjusted fs' [entry] = fs'(audioPath entry := None)"
       "unlinkAdjusted fs' [entry] (originalPath entry) = Some (Audio ''a'' 4)"
    using h1 h2 h3 h4 h5
      resolveSegment_fallback [where fs = diskB and sortedSegments = clipsB and i = 0
        and c = "''a''" and tts = 4 and ext = toolsFailing]
    by blast
  have "unlinkAdjusted fs' [entry] ''temp/v_segment_0_adjusted.mp3'' = None"
    using r(3,7) p by simp
  then show ?thesis using h1 h2 h3 h4 r p by auto
qed

section \<open>Properties of the Compositor\<close>

lemma tryUnlink_eq: "tryUnlink fs p = fs(p := None)"
  by (auto simp: tryUnlink_def unlinkSync_def dom_def fun_eq_iff)

text \<open>The paths the cleanup loop removes: those of the entries flagged as adjusted.\<close>

definition adjustedPaths :: "AdjustedSegment list \<Rightarrow> path set" where
  "adjustedPaths adjustedSegments = set (map audioPath (filter wasAdjusted adjustedSegments))"

lemma unlinkAdjusted_apply:
  "unlinkAdjusted fs adjustedSegments p =
     (if p \<in> adjustedPaths adjustedSegments then None else fs p)"
proof (induction adjustedSegments arbitrary: fs)
  case Nil
  then show ?case by (simp add: adjustedPaths_def)
next
  case (Cons s rest)
  have "adjustedPaths (s # rest) =
          (if wasAdjusted s then insert (audioPath s) (adjustedPaths rest) else adjustedPaths rest)"
    by (auto simp: adjustedPaths_def)
  then show ?case using Cons.IH by (simp add: tryUnlink_eq)
qed

lemma normalizeAudio_frame:
  assumes "normalizeAudio ext fs out = (r, fs')" and "p \<noteq> out" and "p \<noteq> tempNormPathOf out"
  shows "fs' p = fs p"
  using assms
  by (auto simp: normalizeAudio_def Let_def unlinkSync_def renameSync_def
           split: option.splits if_splits)

lemma normalizeAudio_returns_or_throws: "normalizeAudio ext fs out \<noteq> (Diverges, fs')"
  by (auto simp: normalizeAudio_def Let_def unlinkSync_def renameSync_def
           split: option.splits if_splits)

lemma compositeStage_returns_or_throws:
  "fst (compositeStage ext fs adjustedSegments outputPath totalDuration) \<noteq> Diverges"
  by (auto simp: compositeStage_def Let_def catchCleanup_def unlinkSync_def
             normalizeAudio_returns_or_throws
           split: option.splits outcome.splits prod.splits)

lemma compositeStage_apply:
  assumes "compositeStage ext fs adjustedSegments outputPath totalDuration = (r, fs')"
    and "p \<noteq> outputPath" and "p \<noteq> tempNormPathOf outputPath"
  shows "fs' p = (if p \<in> adjustedPaths adjustedSegments \<or> p = filterScriptPathOf outputPath
                  then None else fs p)"
proof -
  let ?script = "filterScriptPathOf outputPath"
  let ?fs1 = "fs(?script \<mapsto> FilterScript (map delayMs adjustedSegments))"
  show ?thesis
  proof (cases "amix ext (map (\<lambda>segment. ?fs1 (audioPath segment)) adjustedSegments)
                  (map delayMs adjustedSegments) totalDuration")
    case None
    then have "fs' = unlinkAdjusted (tryUnlink ?fs1 ?script) adjustedSegments"
      using assms(1) by (simp add: compositeStage_def Let_def catchCleanup_def)
    then show ?thesis by (simp add: unlinkAdjusted_apply tryUnlink_eq)
  next
    case (Some mixed)
    let ?fs2 = "?fs1(outputPath \<mapsto> mixed)"
    let ?fs3 = "?fs2(?script := None)"
    have u: "unlinkSync ?fs2 ?script = Returns ?fs3"
      by (simp add: unlinkSync_def)
    obtain rn fs4 where n:
      "normalizeAudio ext (unlinkAdjusted ?fs3 adjustedSegments) outputPath = (rn, fs4)"
      by (cases "normalizeAudio ext (unlinkAdjusted ?fs3 adjustedSegments) outputPath")
    have f4: "fs4 p = unlinkAdjusted ?fs3 adjustedSegments p"
      using normalizeAudio_frame [OF n assms(2,3)] .
    have "rn \<noteq> Diverges" using normalizeAudio_returns_or_throws n by auto
    then have "fs' = fs4 \<or> fs' = unlinkAdjusted (tryUnlink fs4 ?script) adjustedSegments"
      using assms(1) Some u n
      by (cases rn) (auto simp: compositeStage_def Let_def catchCleanup_def)
    then show ?thesis
      using f4 assms(2) by (auto simp: unlinkAdjusted_apply tryUnlink_eq)
  qed
qed

text \<open>
  C6, as stated, fails: a clip that was never adjusted is not deleted. In the run above
  the second clip fits its window and is not adjusted; after the stitcher has run it is
  still in the temp directory, both when the mix succeeds and when it fails.
\<close>

theorem stitch_keeps_unadjusted_counterexample:
  "fst (resolveLoop toolsCapped clipsB 0 diskB []) =
     Returns [\<lparr>start = 0, end' = 1, text' = ''a'',
               audioPath = ''temp/v_segment_0_adjusted.mp3'',
               originalPath = ''temp/v_segment_0.mp3'', wasAdjusted = True,
               audioDuration = 1.4, exactStart = 0\<rparr>,
              \<lparr>start = 1.2, end' = 2, text' = ''b'',
               audioPath = ''temp/v_segment_1.mp3'',
               originalPath = ''temp/v_segment_1.mp3'', wasAdjusted = False,
               audioDuration = 0.5, exactStart = 1.2\<rparr>]
   \<and> fst (stitchAudioWithTiming toolsCapped diskB clipsB ''temp/v_georgian.mp3'' 2) = Returns ()
   \<and> snd (stitchAudioWithTiming toolsCapped diskB clipsB ''temp/v_georgian.mp3'' 2)
         ''temp/v_segment_1.mp3'' = Some (Audio ''b'' 0.5)
   \<and> fst (stitchAudioWithTiming toolsFailing diskB clipsB ''temp/v_georgian.mp3'' 2)
       = Throws MixFailed
   \<and> snd (stitchAudioWithTiming toolsFailing diskB clipsB ''temp/v_georgian.mp3'' 2)
         ''temp/v_segment_1.mp3'' = Some (Audio ''b'' 0.5)"
  by (simp add: stitchAudioWithTiming_def resolveLoop.simps resolveSegment_def clipsB_def
        diskB_def getAudioDuration_def availableTime_def maxSpeedup_def speedUp_def
        adjustAudioSpeed_def adjustedPathOf_def atempoFilters_3 toolsCapped_def toolsFailing_def
        adjustedEntry_def Let_def compositeStage_def filterScriptPathOf_def unlinkSync_def
        normalizeAudio_def tryUnlink_def delayMs_def tempNormPathOf_def copyFileSync_def
        catchCleanup_def)

text \<open>The entries and the temp directory the resolver hands over in that run.\<close>

definition entriesB :: "AdjustedSegment list" where
  "entriesB = [\<lparr>start = 0, end' = 1, text' = ''a'',
                 audioPath = ''temp/v_segment_0_adjusted.mp3'',
                 originalPath = ''temp/v_segment_0.mp3'', wasAdjusted = True,
                 audioDuration = 1.4, exactStart = 0\<rparr>,
                \<lparr>start = 1.2, end' = 2, text' = ''b'',
                 audioPath = ''temp/v_segment_1.mp3'',
                 originalPath = ''temp/v_segment_1.mp3'', wasAdjusted = False,
                 audioDuration = 0.5, exactStart = 1.2\<rparr>]"

definition diskB1 :: filesystem where
  "diskB1 = diskB(''temp/v_segment_0_adjusted.mp3'' \<mapsto> Audio ''fast'' 1.4)"

text \<open>
  C6, amended. After the compositor has run, whether the mix succeeded or failed, and for
  every path other than the output and the normalizer's temp file: the files of the
  entries flagged as adjusted and the filter script are gone, and every other file is
  what it was before. So clips that were never adjusted and the original clips behind
  the adjusted ones are retained in both cases; the compositor never deletes them.
\<close>

theorem compositeStage_cleanup:
  assumes "compositeStage ext fs adjustedSegments outputPath totalDuration = (r, fs')"
    and "p \<noteq> outputPath" and "p \<noteq> tempNormPathOf outputPath"
  shows "r \<noteq> Diverges
     \<and> fs' p = (if p \<in> adjustedPaths adjustedSegments \<or> p = filterScriptPathOf outputPath
                 then None else fs p)"
  using assms compositeStage_apply [OF assms]
    compositeStage_returns_or_throws [of ext fs adjustedSegments outputPath totalDuration]
  by simp

theorem compositeStage_cleanup_witness:
  "fst (compositeStage toolsCapped diskB1 entriesB ''temp/v_georgian.mp3'' 2) \<noteq> Diverges
   \<and> snd (compositeStage toolsCapped diskB1 entriesB ''temp/v_georgian.mp3'' 2)
         ''temp/v_segment_0_adjusted.mp3'' = None
   \<and> snd (compositeStage toolsCapped diskB1 entriesB ''temp/v_georgian.mp3'' 2)
         ''temp/v_georgian_filter.txt'' = None
   \<and> snd (compositeStage toolsCapped diskB1 entriesB ''temp/v_georgian.mp3'' 2)
         ''temp/v_segment_1.mp3'' = Some (Audio ''b'' 0.5)
   \<and> snd (compositeStage toolsCapped diskB1 entriesB ''temp/v_georgian.mp3'' 2)
         ''temp/v_segment_0.mp3'' = Some (Audio ''a'' 4)"
proof -
  let ?R = "compositeStage toolsCapped diskB1 entriesB ''temp/v_georgian.mp3'' 2"
  have c: "?R = (fst ?R, snd ?R)" by simp
  have t: "''temp/v_georgian.mp3'' \<noteq> p \<Longrightarrow> p \<noteq> ''temp/v_georgian_temp_norm.mp3'' \<Longrightarrow>
      fst ?R \<noteq> Diverges \<and> snd ?R p =
        (if p \<in> {''temp/v_segment_0_adjusted.mp3''} \<or> p = ''temp/v_georgian_filter.txt''
         then None else diskB1 p)" for p
    using compositeStage_cleanup [OF c, of p]
    by (simp add: tempNormPathOf_def filterScriptPathOf_def adjustedPaths_def entriesB_def)
  show ?thesis
    using t [of "''temp/v_segment_0_adjusted.mp3''"] t [of "''temp/v_georgian_filter.txt''"]
      t [of "''temp/v_segment_1.mp3''"] t [of "''temp/v_segment_0.mp3''"]
    by (simp add: diskB1_def diskB_def)
qed

section \<open>The stitcher returns or throws\<close>

text \<open>
  \<open>adjustAudioSpeed\<close> can only fail to return on a target of zero, and the resolver
  never calls it so: the stitcher always returns or throws.
\<close>

lemma adjustAudioSpeed_Diverges:
  "adjustAudioSpeed ext fs inputPath outputPath target = Diverges \<Longrightarrow> target = 0"
  by (auto simp: adjustAudioSpeed_def getAudioDuration_def copyFileSync_def Let_def
           split: option.splits diskfile.splits if_splits)

lemma speedUp_Diverges:
  "fst (speedUp ext fs segment target) = Diverges \<Longrightarrow> target = 0"
  using adjustAudioSpeed_Diverges [of ext fs "audioPath segment" "adjustedPathOf (audioPath segment)" target]
  by (auto simp: speedUp_def Let_def getAudioDuration_def
           split: outcome.splits option.splits diskfile.splits)

lemma resolveSegment_returns_or_throws:
  "fst (resolveSegment ext fs sortedSegments i) \<noteq> Diverges"
proof
  assume d: "fst (resolveSegment ext fs sortedSegments i) = Diverges"
  let ?seg = "sortedSegments ! i"
  let ?avail = "availableTime sortedSegments i"
  obtain c tts where f: "fs (audioPath ?seg) = Some (Audio c tts)"
    using d by (auto simp: resolveSegment_def Let_def getAudioDuration_def dom_def
                     split: option.splits diskfile.splits if_splits)
  have over: "?avail < tts"
    using d f by (auto simp: resolveSegment_def Let_def getAudioDuration_def dom_def
                       split: if_splits)
  show False
  proof (cases "?avail \<noteq> 0 \<and> tts / ?avail \<le> maxSpeedup")
    case True
    then have "fst (speedUp ext fs ?seg ?avail) = Diverges"
      using d f over by (simp add: resolveSegment_def Let_def getAudioDuration_def dom_def)
    then show False using True speedUp_Diverges by blast
  next
    case False
    then have "fst (speedUp ext fs ?seg (tts / maxSpeedup)) = Diverges"
      using d f over by (auto simp: resolveSegment_def Let_def getAudioDuration_def dom_def)
    then have "tts = 0" using speedUp_Diverges [of ext fs ?seg "tts / maxSpeedup"]
      by (simp add: maxSpeedup_def)
    then show False using False over by (simp add: maxSpeedup_def)
  qed
qed

lemma resolveLoop_returns_or_throws:
  "n = length sortedSegments - i \<Longrightarrow>
   fst (resolveLoop ext sortedSegments i fs adjustedSegments) \<noteq> Diverges"
proof (induction n arbitrary: i fs adjustedSegments)
  case 0
  then show ?case by (subst resolveLoop.simps) simp
next
  case (Suc n)
  then have i: "i < length sortedSegments" and n: "n = length sortedSegments - (i + 1)"
    by simp_all
  have step: "fst (resolveLoop ext sortedSegments (i + 1) fs' acc) \<noteq> Diverges" for fs' acc
    using Suc.IH [OF n] .
  show ?case
    using i step resolveSegment_returns_or_throws [of ext fs sortedSegments i]
    by (subst resolveLoop.simps) (auto split: prod.splits outcome.splits option.splits)
qed

lemma stitchAudioWithTiming_returns_or_throws:
  "fst (stitchAudioWithTiming ext fs segments outputPath totalDuration) \<noteq> Diverges"
proof -
  let ?L = "resolveLoop ext (sort_key start segments) 0 fs []"
  have "fst ?L \<noteq> Diverges" using resolveLoop_returns_or_throws [of _ "sort_key start segments" 0] by simp
  then show ?thesis
    using compositeStage_returns_or_throws
    by (auto simp: stitchAudioWithTiming_def Let_def split: prod.splits outcome.splits)
qed

section \<open>Properties of the run\<close>

lemma generateSpeechEdge_no_clip:
  "leavesNoClip provider \<Longrightarrow>
   \<exists>sc'. generateSpeechEdge provider outputPath fs sc = (Throws SynthesisFailed, fs, sc')"
  by (cases provider) (simp_all add: generateSpeechEdge_def leavesNoClip_def Let_def)

lemma synthesizeWithRetry_no_clip:
  assumes "leavesNoClip (synth i 0 t)" and "leavesNoClip (synth i 1 t)"
  shows "\<exists>sc'. synthesizeWithRetry synth i t fileName fs sc = (False, fs, sc')"
proof -
  obtain sc1 where 1: "generateSpeechEdge (synth i 0 t) fileName fs sc = (Throws SynthesisFailed, fs, sc1)"
    using generateSpeechEdge_no_clip [OF assms(1)] by blast
  obtain sc2 where 2: "generateSpeechEdge (synth i 1 t) fileName fs sc1 = (Throws SynthesisFailed, fs, sc2)"
    using generateSpeechEdge_no_clip [OF assms(2)] by blast
  show ?thesis using 1 2 by (simp add: synthesizeWithRetry_def)
qed

lemma generateLoop_no_clip:
  assumes "\<forall>i a t. leavesNoClip (synth i a t)"
  shows "n = length segments - i \<Longrightarrow>
         \<exists>sc'. generateLoop synth segments outputDir videoId i fs sc segmentFiles
                  = (segmentFiles, fs, sc')"
proof (induction n arbitrary: i sc)
  case 0
  then show ?case by (subst generateLoop.simps) simp
next
  case (Suc n)
  then have i: "i < length segments" and n: "n = length segments - (i + 1)" by simp_all
  have rest: "\<exists>sc'. generateLoop synth segments outputDir videoId (i + 1) fs sc1 segmentFiles
                       = (segmentFiles, fs, sc')" for sc1
    using Suc.IH [OF n] .
  let ?clean = "trim (stripBrackets (text' (segments ! i)))"
  let ?name = "join outputDir (segmentFileName videoId i)"
  obtain sc1 where retry: "synthesizeWithRetry synth i ?clean ?name fs sc = (False, fs, sc1)"
    using synthesizeWithRetry_no_clip [of synth i ?clean ?name fs sc] assms by blast
  show ?case
    using i rest [of sc] rest [of sc1] retry
    by (subst generateLoop.simps) (simp add: Let_def)
qed

lemma segmentsWithPaths_empty:
  "(segmentsWithPaths fs outputDir videoId segs = []) =
     (\<forall>i < length segs. join outputDir (segmentFileName videoId i) \<notin> dom fs)"
  by (auto simp: segmentsWithPaths_def filter_empty_conv)

text \<open>
  Runs to evaluate: a provider that is down (every call throws), one that answers every
  call, and one whose every call throws after the clip was copied to its place; a temp
  directory that still holds the first clip of an earlier run of the same video; one
  unit to speak, and one unit that is only a bracketed annotation.
\<close>

definition synthDown :: "nat \<Rightarrow> nat \<Rightarrow> string \<Rightarrow> synthesis" where
  "synthDown i attempt cleanText = Threw"

definition synthUp :: "nat \<Rightarrow> nat \<Rightarrow> string \<Rightarrow> synthesis" where
  "synthUp i attempt cleanText = Written (Audio cleanText 1)"

definition synthLate :: "nat \<Rightarrow> nat \<Rightarrow> string \<Rightarrow> synthesis" where
  "synthLate i attempt cleanText = WrittenThenThrew (Audio cleanText 1) False"

definition staleDisk :: filesystem where
  "staleDisk = [''temp/v_segment_0.mp3'' \<mapsto> Audio ''old'' 1]"

definition lateDisk :: filesystem where
  "lateDisk = [''temp/v_segment_0.mp3'' \<mapsto> Audio ''a'' 1]"

definition unitsD :: "TranscriptSegment list" where
  "unitsD = [\<lparr>start = 0, end' = 2, text' = ''a''\<rparr>]"

definition unitsMusic :: "TranscriptSegment list" where
  "unitsMusic = [\<lparr>start = 0, end' = 2, text' = '' [music] ''\<rparr>]"

definition clipsD :: "AudioSegment list" where
  "clipsD = [\<lparr>start = 0, end' = 2, text' = ''a'', audioPath = ''temp/v_segment_0.mp3''\<rparr>]"

lemma decimal_0: "decimal 0 = ''0''"
  by (simp add: decimal.simps)

lemma generate_all_calls_fail:
  "fst (generateGeorgianAudio synthDown staleDisk Map.empty unitsD ''temp'' ''v'') = []
   \<and> fst (snd (generateGeorgianAudio synthDown staleDisk Map.empty unitsD ''temp'' ''v'')) = staleDisk"
  by (simp add: generateGeorgianAudio_def generateLoop.simps unitsD_def trim_def isWhiteSpace_def
        synthesizeWithRetry_def generateSpeechEdge_def synthDown_def Let_def)

lemma generate_calls_fail_late:
  "fst (generateGeorgianAudio synthLate Map.empty Map.empty unitsD ''temp'' ''v'') = []
   \<and> fst (snd (generateGeorgianAudio synthLate Map.empty Map.empty unitsD ''temp'' ''v'')) = lateDisk"
  by (simp add: generateGeorgianAudio_def generateLoop.simps unitsD_def trim_def isWhiteSpace_def
        synthesizeWithRetry_def generateSpeechEdge_def synthLate_def Let_def lateDisk_def
        join_def segmentFileName_def decimal_0)

lemma generate_annotation_only:
  "generateGeorgianAudio synthUp Map.empty Map.empty unitsMusic ''temp'' ''v''
     = ([], Map.empty, Map.empty)"
  by (simp add: generateGeorgianAudio_def generateLoop.simps unitsMusic_def trim_def
        isWhiteSpace_def Let_def)

lemma segmentsWithPaths_found:
  "segmentsWithPaths staleDisk ''temp'' ''v'' unitsD = clipsD"
  "segmentsWithPaths lateDisk ''temp'' ''v'' unitsD = clipsD"
  by (simp_all add: segmentsWithPaths_def unitsD_def staleDisk_def lateDisk_def clipsD_def join_def
        segmentFileName_def decimal_0)

lemma stitch_found:
  "fst (stitchAudioWithTiming toolsCapped staleDisk clipsD ''temp/v_georgian.mp3'' 2) = Returns ()
   \<and> snd (stitchAudioWithTiming toolsCapped staleDisk clipsD ''temp/v_georgian.mp3'' 2)
         ''temp/v_georgian.mp3'' = Some (Audio ''mix'' 2)"
  "fst (stitchAudioWithTiming toolsCapped lateDisk clipsD ''temp/v_georgian.mp3'' 2) = Returns ()
   \<and> snd (stitchAudioWithTiming toolsCapped lateDisk clipsD ''temp/v_georgian.mp3'' 2)
         ''temp/v_georgian.mp3'' = Some (Audio ''mix'' 2)"
  by (simp_all add: clipsD_def staleDisk_def lateDisk_def
        stitchAudioWithTiming_def resolveLoop.simps resolveSegment_def
        getAudioDuration_def availableTime_def maxSpeedup_def toolsCapped_def
        adjustedEntry_def Let_def compositeStage_def filterScriptPathOf_def unlinkSync_def
        normalizeAudio_def tryUnlink_def delayMs_def tempNormPathOf_def catchCleanup_def)

lemma run_paths:
  "join ''temp'' (finalAudioName ''v'') = ''temp/v_georgian.mp3''"
  "join ''temp'' (metadataFileName ''v'') \<noteq> ''temp/v_georgian.mp3''"
  by (simp_all add: join_def finalAudioName_def metadataFileName_def)

text \<open>
  A clip left by an earlier run of the same video is found by name and stitched although
  every call of this run threw before writing anything. The route means to pass only
  segments that have an audio file of this run; the reuse is a defect of its own.
\<close>

lemma stale_clip_is_reused:
  "fst (generateGeorgianAudio synthDown staleDisk Map.empty unitsD ''temp'' ''v'') = []
   \<and> fst (synthesizeAndStitch toolsCapped synthDown staleDisk Map.empty ''temp'' ''v'' unitsD 2)
       = Returns ()
   \<and> fst (snd (synthesizeAndStitch toolsCapped synthDown staleDisk Map.empty ''temp'' ''v'' unitsD 2))
        ''temp/v_georgian.mp3'' = Some (Audio ''mix'' 2)"
proof -
  obtain files sc1 where g:
    "generateGeorgianAudio synthDown staleDisk Map.empty unitsD ''temp'' ''v'' = (files, staleDisk, sc1)"
    using generate_all_calls_fail
    by (cases "generateGeorgianAudio synthDown staleDisk Map.empty unitsD ''temp'' ''v''") auto
  have n: "clipsD \<noteq> []" by (simp add: clipsD_def)
  show ?thesis
    using n run_paths stitch_found(1) generate_all_calls_fail
    by (auto simp: synthesizeAndStitch_def g segmentsWithPaths_found Let_def
             split: prod.splits outcome.splits)
qed

text \<open>
  C8, as stated, fails. In a fresh temp directory every synthesis call of the run fails
  twice, each after its clip was copied to its place: the synthesizer returns no file
  name, but the clip is there under the expected name, so the run finds it, enters the
  composite stage, and the DubTrack is written.
\<close>

theorem failed_calls_leave_clip_counterexample:
  "(\<forall>i attempt cleanText fileName fs sc.
      fst (generateSpeechEdge (synthLate i attempt cleanText) fileName fs sc)
        = Throws SynthesisFailed)
   \<and> fst (generateGeorgianAudio synthLate Map.empty Map.empty unitsD ''temp'' ''v'') = []
   \<and> fst (synthesizeAndStitch toolsCapped synthLate Map.empty Map.empty ''temp'' ''v'' unitsD 2)
       = Returns ()
   \<and> fst (snd (synthesizeAndStitch toolsCapped synthLate Map.empty Map.empty ''temp'' ''v'' unitsD 2))
        ''temp/v_georgian.mp3'' = Some (Audio ''mix'' 2)"
proof -
  obtain files sc1 where g:
    "generateGeorgianAudio synthLate Map.empty Map.empty unitsD ''temp'' ''v'' = (files, lateDisk, sc1)"
    using generate_calls_fail_late
    by (cases "generateGeorgianAudio synthLate Map.empty Map.empty unitsD ''temp'' ''v''") auto
  have n: "clipsD \<noteq> []" by (simp add: clipsD_def)
  have late: "\<forall>i attempt cleanText fileName fs sc.
      fst (generateSpeechEdge (synthLate i attempt cleanText) fileName fs sc)
        = Throws SynthesisFailed"
    by (simp add: synthLate_def generateSpeechEdge_def Let_def)
  show ?thesis
    using n run_paths stitch_found(2) generate_calls_fail_late late
    by (auto simp: synthesizeAndStitch_def g segmentsWithPaths_found Let_def
             split: prod.splits outcome.splits)
qed

text \<open>
  C8, amended. A run in which no expected clip file exists in the temp directory after
  the synthesis stage aborts with NoUsableSegments, whatever the audio tool would do, and
  leaves the temp directory as the synthesis stage left it: no filter script, no
  DubTrack, no metadata. In particular, when every synthesis call fails before its clip
  is copied to its place (the provider throws, or the copy does) and no expected clip
  file was there before the run, the run aborts so and every file of the temp directory
  is as it was before the run; only scratch directories of the failed calls may be left.
\<close>

theorem synthesizeAndStitch_no_clips:
  "(generateGeorgianAudio synth fs sc segs outputDir videoId = (segmentFiles, fs1, sc1)
      \<and> (\<forall>i < length segs. join outputDir (segmentFileName videoId i) \<notin> dom fs1)
    \<longrightarrow> synthesizeAndStitch ext synth fs sc outputDir videoId segs videoDuration
          = (Throws NoUsableSegments, fs1, sc1))
   \<and> ((\<forall>i a t. leavesNoClip (synth i a t))
      \<and> (\<forall>i < length segs. join outputDir (segmentFileName videoId i) \<notin> dom fs)
    \<longrightarrow> (\<exists>sc'. synthesizeAndStitch ext synth fs sc outputDir videoId segs videoDuration
          = (Throws NoUsableSegments, fs, sc')))"
proof -
  have 1: "synthesizeAndStitch ext synth fs sc outputDir videoId segs videoDuration
             = (Throws NoUsableSegments, fs1, sc1)"
    if "generateGeorgianAudio synth fs sc segs outputDir videoId = (segmentFiles, fs1, sc1)"
      and "\<forall>i < length segs. join outputDir (segmentFileName videoId i) \<notin> dom fs1"
    for segmentFiles fs1 sc1
    using that segmentsWithPaths_empty [of fs1 outputDir videoId segs]
    by (simp add: synthesizeAndStitch_def Let_def)
  have 2: "\<exists>sc'. synthesizeAndStitch ext synth fs sc outputDir videoId segs videoDuration
             = (Throws NoUsableSegments, fs, sc')"
    if fails: "\<forall>i a t. leavesNoClip (synth i a t)"
      and fresh: "\<forall>i < length segs. join outputDir (segmentFileName videoId i) \<notin> dom fs"
  proof -
    have "\<exists>sc'. generateLoop synth segs outputDir videoId 0 fs sc [] = ([], fs, sc')"
      using generateLoop_no_clip [OF fails, of "length segs - 0" segs 0] by simp
    then obtain sc' where
      "generateGeorgianAudio synth fs sc segs outputDir videoId = ([], fs, sc')"
      unfolding generateGeorgianAudio_def by blast
    then show ?thesis using 1 fresh by blast
  qed
  show ?thesis using 1 2 by blast
qed

theorem synthesizeAndStitch_no_clips_witness:
  "(\<forall>i a t. leavesNoClip (synthDown i a t))
   \<and> generateGeorgianAudio synthUp Map.empty Map.empty unitsMusic ''temp'' ''v''
       = ([], Map.empty, Map.empty)
   \<and> synthesizeAndStitch toolsCapped synthUp Map.empty Map.empty ''temp'' ''v'' unitsMusic 2
       = (Throws NoUsableSegments, Map.empty, Map.empty)
   \<and> (\<exists>sc'. synthesizeAndStitch toolsCapped synthDown Map.empty Map.empty ''temp'' ''v'' unitsD 2
       = (Throws NoUsableSegments, Map.empty, sc'))"
proof -
  have down: "\<forall>i a t. leavesNoClip (synthDown i a t)"
    by (simp add: synthDown_def leavesNoClip_def)
  have fresh: "\<forall>i < length segs. join ''temp'' (segmentFileName ''v'' i) \<notin> dom (Map.empty :: filesystem)"
    for segs :: "TranscriptSegment list"
    by simp
  have 1: "synthesizeAndStitch toolsCapped synthUp Map.empty Map.empty ''temp'' ''v'' unitsMusic 2
       = (Throws NoUsableSegments, Map.empty, Map.empty)"
    using synthesizeAndStitch_no_clips [of synthUp Map.empty Map.empty unitsMusic "''temp''" "''v''"
        "[]" Map.empty Map.empty toolsCapped 2] generate_annotation_only fresh
    by blast
  have 2: "\<exists>sc'. synthesizeAndStitch toolsCapped synthDown Map.empty Map.empty ''temp'' ''v'' unitsD 2
       = (Throws NoUsableSegments, Map.empty, sc')"
    using synthesizeAndStitch_no_clips [of synthDown Map.empty Map.empty unitsD "''temp''" "''v''"
        "[]" Map.empty Map.empty toolsCapped 2] down fresh
    by blast
  show ?thesis using down generate_annotation_only 1 2 by blast
qed

section \<open>Properties of the history DELETE\<close>

lemma removeEntry_names: "fst ` set (removeEntry f dir) = fst ` set dir - {f}"
  by (auto simp: removeEntry_def image_iff)

lemma map_of_removeEntry: "name \<noteq> f \<Longrightarrow> map_of (removeEntry f dir) name = map_of dir name"
  by (induction dir) (auto simp: removeEntry_def)

lemma deleteFiles_keeps_out:
  "deleteFiles videoId files dir deleted = (deleted', dir') \<Longrightarrow> name \<notin> fst ` set dir
     \<Longrightarrow> name \<notin> fst ` set dir'"
proof (induction files arbitrary: dir deleted)
  case Nil
  then show ?case by simp
next
  case (Cons f files)
  show ?case
  proof (cases "prefix videoId f \<and> map_of dir f = Some RegularFile")
    case True
    then have "deleteFiles videoId files (removeEntry f dir) (deleted @ [f]) = (deleted', dir')"
      using Cons.prems(1) by simp
    moreover have "name \<notin> fst ` set (removeEntry f dir)"
      using Cons.prems(2) by (simp add: removeEntry_names)
    ultimately show ?thesis by (rule Cons.IH)
  next
    case False
    then have "deleteFiles videoId files dir deleted = (deleted', dir')"
      using Cons.prems(1) by (auto split: option.splits entry.splits if_splits)
    then show ?thesis using Cons.prems(2) by (rule Cons.IH)
  qed
qed

lemma deleteFiles_mono:
  "deleteFiles videoId files dir deleted = (deleted', dir') \<Longrightarrow> set deleted \<subseteq> set deleted'"
proof (induction files arbitrary: dir deleted)
  case Nil
  then show ?case by simp
next
  case (Cons f files)
  show ?case
  proof (cases "prefix videoId f \<and> map_of dir f = Some RegularFile")
    case True
    then have "deleteFiles videoId files (removeEntry f dir) (deleted @ [f]) = (deleted', dir')"
      using Cons.prems(1) by simp
    then have "set (deleted @ [f]) \<subseteq> set deleted'" by (rule Cons.IH)
    then show ?thesis by simp
  next
    case False
    then have "deleteFiles videoId files dir deleted = (deleted', dir')"
      using Cons.prems(1) by (auto split: option.splits entry.splits if_splits)
    then show ?thesis by (rule Cons.IH)
  qed
qed

lemma deleteFiles_removes:
  "deleteFiles videoId files dir deleted = (deleted', dir') \<Longrightarrow> name \<in> set files
     \<Longrightarrow> prefix videoId name \<Longrightarrow> map_of dir name = Some RegularFile
     \<Longrightarrow> name \<in> set deleted' \<and> name \<notin> fst ` set dir'"
proof (induction files arbitrary: dir deleted)
  case Nil
  then show ?case by simp
next
  case (Cons f files)
  show ?case
  proof (cases "prefix videoId f \<and> map_of dir f = Some RegularFile")
    case True
    then have step: "deleteFiles videoId files (removeEntry f dir) (deleted @ [f]) = (deleted', dir')"
      using Cons.prems(1) by simp
    show ?thesis
    proof (cases "name = f")
      case True
      have "name \<notin> fst ` set (removeEntry f dir)" using True by (simp add: removeEntry_names)
      then have "name \<notin> fst ` set dir'" using step deleteFiles_keeps_out by blast
      moreover have "name \<in> set deleted'" using True deleteFiles_mono [OF step] by auto
      ultimately show ?thesis by simp
    next
      case False
      then have "name \<in> set files" "map_of (removeEntry f dir) name = Some RegularFile"
        using Cons.prems(2,4) by (simp_all add: map_of_removeEntry)
      then show ?thesis using Cons.IH [OF step] Cons.prems(3) by simp
    qed
  next
    case False
    then have step: "deleteFiles videoId files dir deleted = (deleted', dir')"
      using Cons.prems(1) by (auto split: option.splits entry.splits if_splits)
    have "name \<noteq> f" using False Cons.prems(3,4) by auto
    then have "name \<in> set files" using Cons.prems(2) by simp
    then show ?thesis using Cons.IH [OF step] Cons.prems(3,4) by simp
  qed
qed

lemma deleteDirs_keeps_out:
  "deleteDirs videoId files dir deleted = (deleted', dir') \<Longrightarrow> name \<notin> fst ` set dir
     \<Longrightarrow> name \<notin> fst ` set dir'"
proof (induction files arbitrary: dir deleted)
  case Nil
  then show ?case by simp
next
  case (Cons f files)
  show ?case
  proof (cases "prefix (''temp_'' @ videoId) f \<and> map_of dir f = Some Directory")
    case True
    then have "deleteDirs videoId files (removeEntry f dir) (deleted @ [f]) = (deleted', dir')"
      using Cons.prems(1) by simp
    moreover have "name \<notin> fst ` set (removeEntry f dir)"
      using Cons.prems(2) by (simp add: removeEntry_names)
    ultimately show ?thesis by (rule Cons.IH)
  next
    case False
    then have "deleteDirs videoId files dir deleted = (deleted', dir')"
      using Cons.prems(1) by (auto split: option.splits entry.splits if_splits)
    then show ?thesis using Cons.prems(2) by (rule Cons.IH)
  qed
qed

lemma deleteDirs_mono:
  "deleteDirs videoId files dir deleted = (deleted', dir') \<Longrightarrow> set deleted \<subseteq> set deleted'"
proof (induction files arbitrary: dir deleted)
  case Nil
  then show ?case by simp
next
  case (Cons f files)
  show ?case
  proof (cases "prefix (''temp_'' @ videoId) f \<and> map_of dir f = Some Directory")
    case True
    then have "deleteDirs videoId files (removeEntry f dir) (deleted @ [f]) = (deleted', dir')"
      using Cons.prems(1) by simp
    then have "set (deleted @ [f]) \<subseteq> set deleted'" by (rule Cons.IH)
    then show ?thesis by simp
  next
    case False
    then have "deleteDirs videoId files dir deleted = (deleted', dir')"
      using Cons.prems(1) by (auto split: option.splits entry.splits if_splits)
    then show ?thesis by (rule Cons.IH)
  qed
qed

lemma DELETE_removes:
  assumes "videoId \<noteq> []" and "prefix videoId name" and "map_of dir name = Some RegularFile"
  shows "\<exists>deletedFiles dir'. DELETE videoId (Some dir) = (Success videoId deletedFiles, Some dir')
           \<and> name \<in> set deletedFiles \<and> name \<notin> fst ` set dir'"
proof -
  obtain d1 dir1 where 1: "deleteFiles videoId (map fst dir) dir [] = (d1, dir1)"
    by (cases "deleteFiles videoId (map fst dir) dir []")
  obtain d2 dir2 where 2: "deleteDirs videoId (map fst dir) dir1 d1 = (d2, dir2)"
    by (cases "deleteDirs videoId (map fst dir) dir1 d1")
  have "name \<in> set (map fst dir)" using assms(3) by (auto dest: map_of_SomeD intro: rev_image_eqI)
  then have "name \<in> set d1 \<and> name \<notin> fst ` set dir1"
    using deleteFiles_removes [OF 1] assms(2,3) by simp
  then have "name \<in> set d2 \<and> name \<notin> fst ` set dir2"
    using deleteDirs_mono [OF 2] deleteDirs_keeps_out [OF 2] by auto
  moreover have "DELETE videoId (Some dir) = (Success videoId d2, Some dir2)"
    using assms(1) 1 2 by (simp add: DELETE_def Let_def)
  ultimately show ?thesis by blast
qed

text \<open>
  C10. Deleting a non-empty video id \<open>A\<close> that is a proper prefix of another id \<open>B\<close>: the
  DubTrack of \<open>B\<close>, its metadata file and each of its segment files, when stored as a
  regular file of the temp directory, is reported as deleted and is no longer listed.
\<close>

theorem DELETE_prefix_removes_other_video:
  assumes "A \<noteq> []" and "strict_prefix A B"
    and "name = finalAudioName B \<or> name = metadataFileName B \<or> name = segmentFileName B i"
    and "map_of dir name = Some RegularFile"
  shows "\<exists>deletedFiles dir'. DELETE A (Some dir) = (Success A deletedFiles, Some dir')
           \<and> name \<in> set deletedFiles \<and> name \<notin> fst ` set dir'"
proof -
  have "prefix A B" using assms(2) by (simp add: strict_prefix_def)
  then have "prefix A name"
    using assms(3) by (auto simp: finalAudioName_def metadataFileName_def segmentFileName_def
                           intro: prefix_prefix)
  then show ?thesis using DELETE_removes [OF assms(1) _ assms(4)] by simp
qed

definition historyDir :: directory where
  "historyDir = [(''abc_georgian.mp3'', RegularFile), (''abcd_georgian.mp3'', RegularFile),
                 (''abcd_meta.json'', RegularFile), (''abcd_segment_0.mp3'', RegularFile),
                 (''temp_abc_segment_1'', Directory), (''xyz_georgian.mp3'', RegularFile)]"

lemma DELETE_historyDir:
  "DELETE ''abc'' (Some historyDir) =
     (Success ''abc'' [''abc_georgian.mp3'', ''abcd_georgian.mp3'', ''abcd_meta.json'',
                       ''abcd_segment_0.mp3'', ''temp_abc_segment_1''],
      Some [(''xyz_georgian.mp3'', RegularFile)])"
  by (simp add: DELETE_def historyDir_def removeEntry_def)

theorem DELETE_prefix_removes_other_video_witness:
  "strict_prefix ''abc'' ''abcd''
   \<and> map_of historyDir (finalAudioName ''abcd'') = Some RegularFile
   \<and> map_of historyDir (metadataFileName ''abcd'') = Some RegularFile
   \<and> map_of historyDir (segmentFileName ''abcd'' 0) = Some RegularFile
   \<and> (\<exists>deletedFiles dir'. DELETE ''abc'' (Some historyDir) = (Success ''abc'' deletedFiles, Some dir')
         \<and> finalAudioName ''abcd'' \<in> set deletedFiles \<and> finalAudioName ''abcd'' \<notin> fst ` set dir')
   \<and> (\<exists>deletedFiles dir'. DELETE ''abc'' (Some historyDir) = (Success ''abc'' deletedFiles, Some dir')
         \<and> metadataFileName ''abcd'' \<in> set deletedFiles \<and> metadataFileName ''abcd'' \<notin> fst ` set dir')
   \<and> (\<exists>deletedFiles dir'. DELETE ''abc'' (Some historyDir) = (Success ''abc'' deletedFiles, Some dir')
         \<and> segmentFileName ''abcd'' 0 \<in> set deletedFiles
         \<and> segmentFileName ''abcd'' 0 \<notin> fst ` set dir')"
proof -
  have a: "''abc'' \<noteq> []" by simp
  have b: "strict_prefix ''abc'' ''abcd''" by (simp add: strict_prefix_def)
  have f: "map_of historyDir (finalAudioName ''abcd'') = Some RegularFile"
    by (simp add: historyDir_def finalAudioName_def)
  have m: "map_of historyDir (metadataFileName ''abcd'') = Some RegularFile"
    by (simp add: historyDir_def metadataFileName_def)
  have g: "map_of historyDir (segmentFileName ''abcd'' 0) = Some RegularFile"
    by (simp add: historyDir_def segmentFileName_def decimal_0)
  show ?thesis
    using b f m g
      DELETE_prefix_removes_other_video [OF a b _ f, of 0]
      DELETE_prefix_removes_other_video [OF a b _ m, of 0]
      DELETE_prefix_removes_other_video [OF a b _ g, of 0]
    by simp
qed

end
